theory Spec2Isabelle
  imports Main
begin

section \<open>Python strings and values\<close>

text \<open>
  A Python \<^verbatim>\<open>str\<close> is modelled as a \<^typ>\<open>string\<close> of ASCII characters. The
  string methods below are the ASCII behaviour of \<^verbatim>\<open>str.isspace\<close>, \<^verbatim>\<open>str.strip\<close> and
  \<^verbatim>\<open>str.lower\<close>; code points beyond ASCII are outside the model.
\<close>

definition is_space :: "char \<Rightarrow> bool" where
  "is_space c = ((of_char c :: nat) \<in> {9, 10, 11, 12, 13, 28, 29, 30, 31, 32})"

definition to_lower :: "char \<Rightarrow> char" where
  "to_lower c = (let n = (of_char c :: nat) in if 65 \<le> n \<and> n \<le> 90 then char_of (n + 32) else c)"

definition py_lower :: "string \<Rightarrow> string" where
  "py_lower s = map to_lower s"

definition lstrip :: "string \<Rightarrow> string" where
  "lstrip s = dropWhile is_space s"

definition rstrip :: "string \<Rightarrow> string" where
  "rstrip s = rev (dropWhile is_space (rev s))"

definition strip :: "string \<Rightarrow> string" where
  "strip s = rstrip (lstrip s)"

text \<open>\<^verbatim>\<open>sep.join(parts)\<close>\<close>

fun join :: "string \<Rightarrow> string list \<Rightarrow> string" where
  "join sep [] = []"
| "join sep [x] = x"
| "join sep (x # y # ys) = x @ sep @ join sep (y # ys)"

text \<open>
  The values a record of the pipeline holds are the scalars a JSON document decodes to:
  \<^verbatim>\<open>None\<close>, booleans, integers and strings. (Floats and nested containers are outside
  the model.)
\<close>

datatype pyval = PNone | PBool bool | PInt int | PStr string

text \<open>Python truthiness, as tested by \<^verbatim>\<open>if v\<close> and \<^verbatim>\<open>not v\<close>.\<close>

fun truthy :: "pyval \<Rightarrow> bool" where
  "truthy PNone = False"
| "truthy (PBool b) = b"
| "truthy (PInt i) = (i \<noteq> 0)"
| "truthy (PStr s) = (s \<noteq> [])"

definition digit_char :: "nat \<Rightarrow> char" where
  "digit_char d = char_of (48 + d)"

fun nat_digits :: "nat \<Rightarrow> string" where
  "nat_digits n = (if n < 10 then [digit_char n] else nat_digits (n div 10) @ [digit_char (n mod 10)])"

declare nat_digits.simps [simp del]

text \<open>\<^verbatim>\<open>str(v)\<close>\<close>

fun py_str :: "pyval \<Rightarrow> string" where
  "py_str PNone = ''None''"
| "py_str (PBool b) = (if b then ''True'' else ''False'')"
| "py_str (PInt i) = (if i < 0 then CHR ''-'' # nat_digits (nat (- i)) else nat_digits (nat i))"
| "py_str (PStr s) = s"

text \<open>
  A \<^verbatim>\<open>dict\<close> with string keys, in insertion order. \<^verbatim>\<open>d.get(k)\<close> is \<^verbatim>\<open>None\<close> for a key
  that is absent; \<^verbatim>\<open>d[k] = v\<close> replaces the value of a present key in place and appends a
  new key at the end.
\<close>

type_synonym pydict = "(string \<times> pyval) list"

definition dict_get :: "pydict \<Rightarrow> string \<Rightarrow> pyval" where
  "dict_get d k = (case map_of d k of None \<Rightarrow> PNone | Some v \<Rightarrow> v)"

fun dict_set :: "pydict \<Rightarrow> string \<Rightarrow> pyval \<Rightarrow> pydict" where
  "dict_set [] k v = [(k, v)]"
| "dict_set ((k', v') # d) k v = (if k' = k then (k, v) # d else (k', v') # dict_set d k v)"

section \<open>Identity hash (db.py)\<close>

text \<open>
  \<^verbatim>\<open>generate_uid(*args)\<close>: the truthy arguments are converted with \<^verbatim>\<open>str\<close>, lower-cased,
  stripped and joined with \<^verbatim>\<open>"-"\<close>; the result is hashed. The hash itself
  (\<^verbatim>\<open>hashlib.sha256(...).hexdigest()\<close>) is library code and is the parameter \<open>H\<close>.
\<close>

definition uid_raw :: "pyval list \<Rightarrow> string" where
  "uid_raw args = join ''-'' (map (\<lambda>a. strip (py_lower (py_str a))) (filter truthy args))"

definition generate_uid :: "(string \<Rightarrow> string) \<Rightarrow> pyval list \<Rightarrow> string" where
  "generate_uid H args = take 64 (H (uid_raw args))"

text \<open>
  The wording of the specification for two key fields that are variants of each other:
  two strings that are both empty, or both non-empty and equal once leading and trailing
  whitespace is removed and letter case is ignored; any other value only with itself.
\<close>

fun key_variant :: "pyval \<Rightarrow> pyval \<Rightarrow> bool" where
  "key_variant (PStr s) (PStr t) =
     ((s = [] \<and> t = []) \<or> (s \<noteq> [] \<and> t \<noteq> [] \<and> py_lower (strip s) = py_lower (strip t)))"
| "key_variant a b = (a = b)"

section \<open>Deduplicating upsert (db.py)\<close>

text \<open>
  A table of the relational store: its rows in insertion order and the next
  \<^verbatim>\<open>AUTO_INCREMENT\<close> id. A row holds its id, its \<^verbatim>\<open>uid\<close> (the \<^verbatim>\<open>UNIQUE\<close> key) and the
  other column values in the order of the \<^verbatim>\<open>INSERT\<close> statement.
\<close>

record row =
  row_id :: nat
  row_uid :: string
  row_cols :: "pyval list"

record table =
  rows :: "row list"
  next_id :: nat

record store =
  organizers :: table
  events :: table

text \<open>
  What the store does with one call: \<open>NoConnection\<close> when \<^verbatim>\<open>create_connection()\<close> returns
  \<^verbatim>\<open>None\<close>, \<open>StatementError\<close> when \<^verbatim>\<open>cursor.execute\<close> raises \<^verbatim>\<open>Error\<close>.
\<close>

datatype db_fault = NoFault | NoConnection | StatementError

text \<open>
  \<^verbatim>\<open>INSERT ... ON DUPLICATE KEY UPDATE id=LAST_INSERT_ID(id)\<close> (organizers) and
  \<^verbatim>\<open>... UPDATE id=id\<close> (events): a row whose \<^verbatim>\<open>uid\<close> is already stored is left as it is,
  otherwise the new row is appended under a fresh id. The first component is
  \<^verbatim>\<open>cursor.lastrowid\<close> of the organizers' statement.
\<close>

definition insert_on_duplicate_key :: "table \<Rightarrow> string \<Rightarrow> pyval list \<Rightarrow> nat \<times> table" where
  "insert_on_duplicate_key t uid cols =
     (case find (\<lambda>r. row_uid r = uid) (rows t) of
        Some r \<Rightarrow> (row_id r, t)
      | None \<Rightarrow> (next_id t,
          t\<lparr>rows := rows t @ [\<lparr>row_id = next_id t, row_uid = uid, row_cols = cols\<rparr>],
            next_id := Suc (next_id t)\<rparr>))"

definition organizer_uid :: "(string \<Rightarrow> string) \<Rightarrow> pydict \<Rightarrow> string" where
  "organizer_uid H data = generate_uid H [dict_get data ''organizer_name'', dict_get data ''organizer_website'']"

definition organizer_values :: "pydict \<Rightarrow> pyval list" where
  "organizer_values data = map (dict_get data)
     [''organizer_name'', ''organizer_ein'', ''organizer_website'', ''organizer_email'',
      ''organizer_phone'', ''organizer_contact_name'', ''organizer_contact_title'',
      ''organizer_contact_email'', ''organizer_facebook'', ''organizer_instagram'']"

text \<open>\<^verbatim>\<open>insert_organizer(data)\<close> returns the organizer's id, or \<^verbatim>\<open>None\<close>.\<close>

definition insert_organizer ::
  "(string \<Rightarrow> string) \<Rightarrow> db_fault \<Rightarrow> pydict \<Rightarrow> store \<Rightarrow> nat option \<times> store" where
  "insert_organizer H fault data s =
     (if fault = NoConnection then (None, s)
      else
        let uid = organizer_uid H data;
            vals = organizer_values data
        in if fault = StatementError then (None, s)
           else
             let (organizer_id, t) = insert_on_duplicate_key (organizers s) uid vals
             in (Some organizer_id, s\<lparr>organizers := t\<rparr>))"

text \<open>The blank date is normalised to \<^verbatim>\<open>None\<close> before the uid is computed.\<close>

definition event_date_of :: "pydict \<Rightarrow> pyval" where
  "event_date_of data =
     (let event_date = dict_get data ''event_date''
      in if \<not> truthy event_date \<or> strip (py_str event_date) = [] then PNone else event_date)"

definition event_uid :: "(string \<Rightarrow> string) \<Rightarrow> pydict \<Rightarrow> string" where
  "event_uid H data = generate_uid H [dict_get data ''event_name'', event_date_of data, dict_get data ''venue_name'']"

definition event_values :: "pydict \<Rightarrow> nat option \<Rightarrow> pyval list" where
  "event_values data organizer_id =
     [dict_get data ''event_name'', event_date_of data] @
     map (dict_get data)
       [''event_type'', ''description'', ''venue_name'', ''venue_address'', ''venue_city'',
        ''venue_state'', ''venue_zip'', ''venue_parking'', ''venue_website'',
        ''registration_url'', ''sponsorship_url'', ''sponsorship_tiers'',
        ''sponsorship_contact'', ''past_sponsors'', ''dress_code''] @
     [case organizer_id of None \<Rightarrow> PNone | Some i \<Rightarrow> PInt (int i)]"

text \<open>
  \<^verbatim>\<open>insert_event(data, organizer_id)\<close> has no \<^verbatim>\<open>return\<close> with a value: the call yields
  \<^verbatim>\<open>None\<close> on every path, which is the first component.
\<close>

definition insert_event ::
  "(string \<Rightarrow> string) \<Rightarrow> db_fault \<Rightarrow> pydict \<Rightarrow> nat option \<Rightarrow> store \<Rightarrow> nat option \<times> store" where
  "insert_event H fault data organizer_id s =
     (if fault = NoConnection then (None, s)
      else
        let uid = event_uid H data;
            vals = event_values data organizer_id
        in if fault = StatementError then (None, s)
           else (None, s\<lparr>events := snd (insert_on_duplicate_key (events s) uid vals)\<rparr>))"

section \<open>Extraction, escalation and merge (parser.py)\<close>

definition MISSING_FIELDS_THRESHOLD :: nat where
  "MISSING_FIELDS_THRESHOLD = 4"

definition REQUIRED_FIELDS :: "string list" where
  "REQUIRED_FIELDS =
     [''event_name'', ''event_date'', ''event_type'', ''description'', ''venue_name'',
      ''venue_address'', ''venue_city'', ''venue_state'', ''venue_zip'', ''venue_parking'',
      ''venue_website'', ''registration_url'', ''sponsorship_url'', ''sponsorship_tiers'',
      ''sponsorship_contact'', ''past_sponsors'', ''dress_code'', ''organizer_name'',
      ''organizer_ein'', ''organizer_website'', ''organizer_email'', ''organizer_phone'',
      ''organizer_contact_name'', ''organizer_contact_title'', ''organizer_contact_email'',
      ''organizer_facebook'', ''organizer_instagram'']"

text \<open>
  \<^verbatim>\<open>count_missing_fields(parsed)\<close>: an empty mapping counts every field; otherwise a field
  counts when its value is \<^verbatim>\<open>None\<close> (also: absent) or \<^verbatim>\<open>str(v).strip() == ""\<close>.
\<close>

definition count_missing_fields :: "pydict \<Rightarrow> nat" where
  "count_missing_fields parsed =
     (if parsed = [] then length REQUIRED_FIELDS
      else length (filter (\<lambda>f. let v = dict_get parsed f in v = PNone \<or> strip (py_str v) = [])
                     REQUIRED_FIELDS))"

text \<open>The test of \<^verbatim>\<open>process_links\<close> that starts the deep search.\<close>

definition escalation_triggered :: "pydict \<Rightarrow> bool" where
  "escalation_triggered data = (count_missing_fields data \<ge> MISSING_FIELDS_THRESHOLD)"

text \<open>
  \<^verbatim>\<open>deep_synthesize_fields\<close>, from the point where the searches have produced
  \<open>candidate_urls\<close> and the language model has answered \<open>synth\<close> (both are outcomes of
  external calls): no candidate or an empty answer gives the empty supplement, otherwise
  the supplement keeps, in schema order, the fields whose value is not \<^verbatim>\<open>None\<close> and not
  blank.
\<close>

definition deep_synthesize_fields :: "string list \<Rightarrow> pydict \<Rightarrow> pydict" where
  "deep_synthesize_fields candidate_urls synth =
     (if candidate_urls = [] then []
      else if synth = [] then []
      else map (\<lambda>k. (k, dict_get synth k))
             (filter (\<lambda>k. let v = dict_get synth k in v \<noteq> PNone \<and> strip (py_str v) \<noteq> [])
                REQUIRED_FIELDS))"

text \<open>
  The merge loop of \<^verbatim>\<open>process_links\<close>:
  \<^verbatim>\<open>for k, v in synth.items(): if v and (not data.get(k) or str(data.get(k)).strip() == ""): data[k] = v\<close>
\<close>

definition merge_step :: "string \<times> pyval \<Rightarrow> pydict \<Rightarrow> pydict" where
  "merge_step kv data =
     (let k = fst kv; v = snd kv
      in if truthy v \<and> (\<not> truthy (dict_get data k) \<or> strip (py_str (dict_get data k)) = [])
         then dict_set data k v else data)"

definition merge_supplement :: "pydict \<Rightarrow> pydict \<Rightarrow> pydict" where
  "merge_supplement data synth = fold merge_step synth data"

text \<open>\<^verbatim>\<open>re.sub(r"\s+", " ", s)\<close>: every maximal run of whitespace becomes one space.\<close>

function collapse_ws :: "string \<Rightarrow> string" where
  "collapse_ws [] = []"
| "collapse_ws (c # cs) =
     (if is_space c then CHR '' '' # collapse_ws (dropWhile is_space cs) else c # collapse_ws cs)"
  by pat_completeness auto
termination
  by (relation "measure length") (auto simp: length_dropWhile_le less_Suc_eq_le)

definition clean_text :: "pyval \<Rightarrow> pyval" where
  "clean_text s = (if \<not> truthy s then PNone else PStr (strip (collapse_ws (py_str s))))"

text \<open>
  \<^verbatim>\<open>normalize_date\<close>; \<open>parse\<close> is \<^verbatim>\<open>dateutil\<close>'s fuzzy parser followed by \<^verbatim>\<open>strftime\<close>,
  \<open>None\<close> when it raises.
\<close>

definition normalize_date :: "(string \<Rightarrow> string option) \<Rightarrow> pyval \<Rightarrow> pyval" where
  "normalize_date parse date_str =
     (if \<not> truthy date_str then PNone
      else case parse (py_str date_str) of None \<Rightarrow> PNone | Some d \<Rightarrow> PStr d)"

text \<open>
  The outcomes of the external calls \<^verbatim>\<open>process_links\<close> makes for one link:
  the fetched page (\<open>None\<close>: no page), the single-pass extraction (\<open>None\<close>: it raised),
  the deep search (\<open>None\<close>: it raised; otherwise the candidate urls and the model's answer),
  and the page title read for the fallback record (\<open>None\<close>: reading it raised).
\<close>

record link_run =
  html :: "string option"
  parsed :: "pydict option"
  deep :: "(string list \<times> pydict) option"
  page_title :: "string option option"
  date_parse :: "string \<Rightarrow> string option"

datatype link_result = FetchFailed | ParseError | FallbackError | Persist pydict

definition fallback_record :: "string option \<Rightarrow> string \<Rightarrow> pydict" where
  "fallback_record title url =
     map (\<lambda>k. (k, if k = ''event_name'' then PStr (case title of None \<Rightarrow> [] | Some t \<Rightarrow> t)
                   else if k = ''registration_url'' then PStr url
                   else PStr []))
       REQUIRED_FIELDS"

definition CLEANED_FIELDS :: "string list" where
  "CLEANED_FIELDS =
     [''event_name'', ''event_type'', ''description'', ''venue_name'', ''venue_address'',
      ''venue_city'', ''venue_state'', ''venue_zip'', ''venue_parking'', ''venue_website'',
      ''sponsorship_url'', ''sponsorship_tiers'', ''sponsorship_contact'',
      ''past_sponsors'', ''dress_code'', ''organizer_name'', ''organizer_ein'',
      ''organizer_website'', ''organizer_email'', ''organizer_phone'',
      ''organizer_contact_name'', ''organizer_contact_title'', ''organizer_contact_email'',
      ''organizer_facebook'', ''organizer_instagram'']"

definition clean_step :: "string \<Rightarrow> pydict \<Rightarrow> pydict" where
  "clean_step k data = (if k \<in> fst ` set data then dict_set data k (clean_text (dict_get data k)) else data)"

text \<open>The last steps before persistence: the registration url, the date, the cleaning.\<close>

definition finish_record :: "(string \<Rightarrow> string option) \<Rightarrow> string \<Rightarrow> pydict \<Rightarrow> pydict" where
  "finish_record parse url data0 =
     (let data1 = (if \<not> truthy (dict_get data0 ''registration_url'')
                   then dict_set data0 ''registration_url'' (PStr url) else data0);
          data2 = dict_set data1 ''event_date'' (normalize_date parse (dict_get data1 ''event_date''))
      in fold clean_step CLEANED_FIELDS data2)"

text \<open>
  One iteration of the loop of \<^verbatim>\<open>process_links\<close>, first up to the record as it is
  after extraction, deep synthesis and fallback. The extraction's result is a mapping
  here, so the test \<^verbatim>\<open>not isinstance(data, dict)\<close> is false.
\<close>

definition extract_record :: "link_run \<Rightarrow> string \<Rightarrow> link_result" where
  "extract_record run url =
     (case html run of
        None \<Rightarrow> FetchFailed
      | Some h \<Rightarrow>
          if h = [] then FetchFailed
          else case parsed run of
            None \<Rightarrow> ParseError
          | Some data0 \<Rightarrow>
              let data1 =
                    (if escalation_triggered data0 then
                       (case deep run of
                          None \<Rightarrow> data0
                        | Some answer \<Rightarrow>
                            merge_supplement data0 (deep_synthesize_fields (fst answer) (snd answer)))
                     else data0)
              in if count_missing_fields data1 = length REQUIRED_FIELDS then
                   (case page_title run of
                      None \<Rightarrow> FallbackError
                    | Some title \<Rightarrow> Persist (fallback_record title url))
                 else Persist data1)"

text \<open>Then up to the record handed to \<^verbatim>\<open>insert_organizer\<close> and \<^verbatim>\<open>insert_event\<close>.\<close>

definition prepare_record :: "link_run \<Rightarrow> string \<Rightarrow> link_result" where
  "prepare_record run url =
     (case extract_record run url of
        Persist data \<Rightarrow> Persist (finish_record (date_parse run) url data)
      | r \<Rightarrow> r)"

text \<open>
  The save step: \<^verbatim>\<open>organizer_id = insert_organizer(data)\<close>, then
  \<^verbatim>\<open>if organizer_id: insert_event(data, organizer_id)\<close>.
\<close>

definition save_record :: "(string \<Rightarrow> string) \<Rightarrow> db_fault \<Rightarrow> db_fault \<Rightarrow> pydict \<Rightarrow> store \<Rightarrow> store" where
  "save_record H f1 f2 data s =
     (let (organizer_id, s1) = insert_organizer H f1 data s
      in case organizer_id of
           None \<Rightarrow> s1
         | Some i \<Rightarrow> if i = 0 then s1 else snd (insert_event H f2 data (Some i) s1))"

definition process_link :: "(string \<Rightarrow> string) \<Rightarrow> db_fault \<Rightarrow> db_fault \<Rightarrow> link_run \<Rightarrow> string \<Rightarrow> store \<Rightarrow> store" where
  "process_link H f1 f2 run url s =
     (case prepare_record run url of
        Persist data \<Rightarrow> save_record H f1 f2 data s
      | _ \<Rightarrow> s)"

text \<open>
  The wording of the specification for a missing schema field: absent, \<^verbatim>\<open>None\<close>, or a
  string that is empty or whitespace only.
\<close>

definition field_missing :: "pydict \<Rightarrow> string \<Rightarrow> bool" where
  "field_missing d f =
     (case map_of d f of
        None \<Rightarrow> True
      | Some PNone \<Rightarrow> True
      | Some (PStr s) \<Rightarrow> list_all is_space s
      | Some _ \<Rightarrow> False)"

text \<open>
  The record of the specification's data model: a mapping of the schema's string fields,
  every value a string or \<^verbatim>\<open>None\<close>.
\<close>

fun is_text :: "pyval \<Rightarrow> bool" where
  "is_text PNone = True"
| "is_text (PStr s) = True"
| "is_text (PBool b) = False"
| "is_text (PInt i) = False"

definition text_record :: "pydict \<Rightarrow> bool" where
  "text_record d = list_all (\<lambda>kv. is_text (snd kv)) d"


section \<open>Response decoder (parser.py, ein_enrichment.py)\<close>

text \<open>
  What \<^verbatim>\<open>json.loads\<close> can return at the top level: an object, an array or a scalar.
  (Values nested inside are the scalars of \<^typ>\<open>pyval\<close>.)
\<close>

datatype json = JObject pydict | JArray "pyval list" | JScalar pyval

text \<open>
  \<^verbatim>\<open>re.sub(r"^```json|^```|```$", "", s, flags=re.IGNORECASE | re.MULTILINE)\<close>, scanning
  from the left: at the start of a line the fence with or without \<^verbatim>\<open>json\<close> is removed,
  anywhere a fence that ends a line is removed. The flag says whether the position is the
  start of a line.
\<close>

definition FENCE :: string where
  "FENCE = replicate 3 (char_of (96 :: nat))"

definition NEWLINE :: char where
  "NEWLINE = char_of (10 :: nat)"

function strip_fences :: "bool \<Rightarrow> string \<Rightarrow> string" where
  "strip_fences bol [] = []"
| "strip_fences bol (c # cs) =
     (if bol \<and> py_lower (take 7 (c # cs)) = FENCE @ ''json'' then strip_fences False (drop 7 (c # cs))
      else if bol \<and> take 3 (c # cs) = FENCE then strip_fences False (drop 3 (c # cs))
      else if take 3 (c # cs) = FENCE \<and> (drop 3 (c # cs) = [] \<or> hd (drop 3 (c # cs)) = NEWLINE)
        then strip_fences False (drop 3 (c # cs))
      else c # strip_fences (c = NEWLINE) cs)"
  by pat_completeness auto
termination
  by (relation "measure (\<lambda>(bol, s). length s)") auto

text \<open>
  \<^verbatim>\<open>re.search(r"\{.*\}", s, flags=re.DOTALL)\<close>: from the first opening brace to the last
  closing brace after it.
\<close>

definition brace_span :: "string \<Rightarrow> string option" where
  "brace_span s =
     (let from_open = dropWhile (\<lambda>c. c \<noteq> CHR ''{'') s;
          span = rev (dropWhile (\<lambda>c. c \<noteq> CHR ''}'') (rev from_open))
      in if span = [] then None else Some span)"

definition replace_quotes :: "string \<Rightarrow> string" where
  "replace_quotes s = map (\<lambda>c. if c = CHR 0x27 then CHR 0x22 else c) s"

text \<open>
  \<^verbatim>\<open>safe_json(text)\<close>. \<open>loads\<close> is \<^verbatim>\<open>json.loads\<close> (library code), \<open>None\<close> when it
  raises; both \<^verbatim>\<open>except Exception\<close> handlers are the \<open>None\<close> branches.
\<close>

definition safe_json :: "(string \<Rightarrow> json option) \<Rightarrow> string \<Rightarrow> json" where
  "safe_json loads text =
     (if text = [] then JObject []
      else
        let cleaned0 = strip (strip_fences True (strip text));
            cleaned = (if take 1 (strip cleaned0) \<noteq> ''{'' then
                         (case brace_span cleaned0 of Some m \<Rightarrow> m | None \<Rightarrow> cleaned0)
                       else cleaned0)
        in case loads cleaned of
             Some v \<Rightarrow> v
           | None \<Rightarrow> (case loads (replace_quotes cleaned) of Some v \<Rightarrow> v | None \<Rightarrow> JObject []))"

section \<open>Search providers and EIN locator (ein_enrichment.py)\<close>

text \<open>An item of a provider's response, and a normalised result.\<close>

record raw_item =
  item_title :: "string option"
  item_link :: "string option"
  item_url :: "string option"
  item_snippet :: "string option"

record search_result =
  title :: "string option"
  link :: "string option"
  snippet :: "string option"

text \<open>
  The module's configuration and the outcomes of its external calls (\<open>None\<close>: the call
  raises): the SerpAPI client, the Google CSE client, the CSE HTTP endpoint, and
  \<^verbatim>\<open>requests.get(link).text\<close>.
\<close>

record search_env =
  SERPAPI_KEY :: string
  GoogleSearch_present :: bool
  serpapi_organic_results :: "string \<Rightarrow> nat \<Rightarrow> raw_item list option"
  GOOGLE_API_KEY :: string
  GOOGLE_CSE_ID :: string
  google_build_present :: bool
  cse_client_items :: "string \<Rightarrow> nat \<Rightarrow> raw_item list option"
  cse_http_items :: "string \<Rightarrow> nat \<Rightarrow> raw_item list option"
  requests_get_text :: "string \<Rightarrow> string option"

text \<open>\<^verbatim>\<open>a or b\<close> on optional strings.\<close>

definition str_or :: "string option \<Rightarrow> string option \<Rightarrow> string option" where
  "str_or a b = (case a of Some s \<Rightarrow> if s \<noteq> [] then a else b | None \<Rightarrow> b)"

definition serpapi_search :: "search_env \<Rightarrow> string \<Rightarrow> nat \<Rightarrow> search_result list" where
  "serpapi_search env query num_results =
     (if SERPAPI_KEY env = [] \<or> \<not> GoogleSearch_present env then []
      else case serpapi_organic_results env query num_results of
             None \<Rightarrow> []
           | Some items \<Rightarrow>
               map (\<lambda>item. \<lparr>title = item_title item,
                             link = str_or (item_link item) (item_url item),
                             snippet = str_or (item_snippet item) (Some [])\<rparr>) items)"

definition cse_result :: "raw_item \<Rightarrow> search_result" where
  "cse_result it = \<lparr>title = item_title it, link = item_link it, snippet = item_snippet it\<rparr>"

definition cse_http :: "search_env \<Rightarrow> string \<Rightarrow> nat \<Rightarrow> search_result list" where
  "cse_http env query num_results =
     (case cse_http_items env query num_results of
        None \<Rightarrow> []
      | Some items \<Rightarrow> map cse_result items)"

definition google_cse_search :: "search_env \<Rightarrow> string \<Rightarrow> nat \<Rightarrow> search_result list" where
  "google_cse_search env query num_results =
     (if GOOGLE_API_KEY env = [] \<or> GOOGLE_CSE_ID env = [] then []
      else if google_build_present env then
        (case cse_client_items env query (min num_results 500) of
           Some items \<Rightarrow> map cse_result items
         | None \<Rightarrow> cse_http env query num_results)
      else cse_http env query num_results)"

datatype provider = SerpAPI | GoogleCSE

text \<open>
  \<^verbatim>\<open>unified_search\<close>; the first component lists the providers it called, in order.
\<close>

definition unified_search :: "search_env \<Rightarrow> string \<Rightarrow> nat \<Rightarrow> provider list \<times> search_result list" where
  "unified_search env query num_results =
     (let results = serpapi_search env query num_results
      in if results \<noteq> [] then ([SerpAPI], results)
         else ([SerpAPI, GoogleCSE], google_cse_search env query num_results))"

text \<open>\<^verbatim>\<open>EIN_REGEX = re.compile(r"\b\d{2}-\d{7}\b")\<close> and its \<^verbatim>\<open>search\<close>.\<close>

definition is_digit :: "char \<Rightarrow> bool" where
  "is_digit c = (48 \<le> (of_char c :: nat) \<and> (of_char c :: nat) \<le> 57)"

definition is_word_char :: "char \<Rightarrow> bool" where
  "is_word_char c =
     (let n = (of_char c :: nat)
      in (48 \<le> n \<and> n \<le> 57) \<or> (65 \<le> n \<and> n \<le> 90) \<or> (97 \<le> n \<and> n \<le> 122) \<or> n = 95)"

text \<open>The pattern matches at the head of \<open>s\<close>, the closing \<^verbatim>\<open>\b\<close> included.\<close>

definition ein_at :: "string \<Rightarrow> bool" where
  "ein_at s =
     (10 \<le> length s \<and> list_all is_digit (take 2 s) \<and> s ! 2 = CHR ''-'' \<and>
      list_all is_digit (take 7 (drop 3 s)) \<and>
      (drop 10 s = [] \<or> \<not> is_word_char (hd (drop 10 s))))"

text \<open>The flag says whether the character before the position is a word character.\<close>

fun ein_search_from :: "bool \<Rightarrow> string \<Rightarrow> string option" where
  "ein_search_from prev_word [] = None"
| "ein_search_from prev_word (c # cs) =
     (if \<not> prev_word \<and> ein_at (c # cs) then Some (take 10 (c # cs))
      else ein_search_from (is_word_char c) cs)"

definition EIN_REGEX_search :: "string \<Rightarrow> string option" where
  "EIN_REGEX_search s = ein_search_from False s"

definition extract_ein_from_snippet :: "string \<Rightarrow> string option" where
  "extract_ein_from_snippet s = (if s = [] then None else EIN_REGEX_search s)"

definition str_or_empty :: "string option \<Rightarrow> string" where
  "str_or_empty a = (case a of Some s \<Rightarrow> s | None \<Rightarrow> [])"

text \<open>Truthiness of an optional string (\<^verbatim>\<open>if ein:\<close>, \<^verbatim>\<open>if not link:\<close>).\<close>

definition opt_truthy :: "string option \<Rightarrow> bool" where
  "opt_truthy a = (case a of Some s \<Rightarrow> s \<noteq> [] | None \<Rightarrow> False)"

text \<open>The first loop of \<^verbatim>\<open>search_site_for_ein\<close>: snippet and title of each result.\<close>

fun scan_snippets :: "search_result list \<Rightarrow> string option" where
  "scan_snippets [] = None"
| "scan_snippets (r # rs) =
     (let ein = extract_ein_from_snippet (str_or_empty (snippet r) @ '' '' @ str_or_empty (title r))
      in if opt_truthy ein then ein else scan_snippets rs)"

text \<open>The second loop: the text of each result's page.\<close>

fun scan_pages :: "search_env \<Rightarrow> search_result list \<Rightarrow> string option" where
  "scan_pages env [] = None"
| "scan_pages env (r # rs) =
     (case link r of
        None \<Rightarrow> scan_pages env rs
      | Some l \<Rightarrow>
          if l = [] then scan_pages env rs
          else (case requests_get_text env l of
                  None \<Rightarrow> scan_pages env rs
                | Some page \<Rightarrow>
                    if page = [] then scan_pages env rs
                    else (case EIN_REGEX_search page of
                            Some m \<Rightarrow> Some m
                          | None \<Rightarrow> scan_pages env rs)))"

text \<open>
  \<^verbatim>\<open>search_site_for_ein(query)\<close>. \<^verbatim>\<open>unified_search\<close> returns a list on every path, so the
  handler around its call is never entered.
\<close>

definition search_site_for_ein :: "search_env \<Rightarrow> string \<Rightarrow> string option" where
  "search_site_for_ein env query =
     (let results = snd (unified_search env query 6)
      in case scan_snippets results of
           Some ein \<Rightarrow> Some ein
         | None \<Rightarrow> scan_pages env results)"

definition EIN_QUERIES :: "string \<Rightarrow> string list" where
  "EIN_QUERIES org_name =
     [org_name @ '' site:projects.propublica.org OR site:apps.irs.gov'',
      org_name @ '' site:causeiq.com'',
      org_name @ '' site:charitynavigator.org'',
      org_name @ '' nonprofit EIN'']"

text \<open>
  \<^verbatim>\<open>search_ein_multisource(org_name)\<close>; the first component lists the queries it issued,
  in order.
\<close>

definition search_ein_multisource :: "search_env \<Rightarrow> string \<Rightarrow> string list \<times> string option" where
  "search_ein_multisource env org_name =
     (let q1 = org_name @ '' site:projects.propublica.org OR site:apps.irs.gov'';
          ein1 = search_site_for_ein env q1
      in if opt_truthy ein1 then ([q1], ein1)
         else
           let q2 = org_name @ '' site:causeiq.com'';
               ein2 = search_site_for_ein env q2
           in if opt_truthy ein2 then ([q1, q2], ein2)
              else
                let q3 = org_name @ '' site:charitynavigator.org'';
                    ein3 = search_site_for_ein env q3
                in if opt_truthy ein3 then ([q1, q2, q3], ein3)
                   else
                     let q4 = org_name @ '' nonprofit EIN''
                     in ([q1, q2, q3, q4], search_site_for_ein env q4))"

text \<open>
  The wording of the specification for a tax id: two digits, a hyphen, seven digits.
\<close>

definition ein_shape :: "string \<Rightarrow> bool" where
  "ein_shape m =
     (length m = 10 \<and> list_all is_digit (take 2 m) \<and> m ! 2 = CHR ''-'' \<and>
      list_all is_digit (drop 3 m))"

text \<open>
  The pattern \<^verbatim>\<open>\b\d{2}-\d{7}\b\<close> occurs in \<open>s\<close> at index \<open>i\<close>: a tax id stands there,
  with no word character directly before it and none directly after it.
\<close>

definition ein_occurs_at :: "string \<Rightarrow> nat \<Rightarrow> bool" where
  "ein_occurs_at s i =
     (i + 10 \<le> length s \<and> ein_shape (take 10 (drop i s)) \<and>
      (i = 0 \<or> \<not> is_word_char (s ! (i - 1))) \<and>
      (i + 10 = length s \<or> \<not> is_word_char (s ! (i + 10))))"

text \<open>
  The same for a text that continues another one; \<open>prev\<close> says whether the character
  before the text is a word character.
\<close>

definition ein_occurs_after :: "bool \<Rightarrow> string \<Rightarrow> nat \<Rightarrow> bool" where
  "ein_occurs_after prev s i =
     (i + 10 \<le> length s \<and> ein_shape (take 10 (drop i s)) \<and>
      (if i = 0 then \<not> prev else \<not> is_word_char (s ! (i - 1))) \<and>
      (i + 10 = length s \<or> \<not> is_word_char (s ! (i + 10))))"

text \<open>The first answer of a list of attempts.\<close>

fun first_some :: "'a option list \<Rightarrow> 'a option" where
  "first_some [] = None"
| "first_some (None # xs) = first_some xs"
| "first_some (Some x # xs) = Some x"

text \<open>
  The wording of the specification for what one search result yields: the tax id found in
  its concatenated snippet and title, and the tax id found in the text of its page (no
  link, a failed fetch and an empty page yield nothing).
\<close>

definition snippet_hit :: "search_result \<Rightarrow> string option" where
  "snippet_hit r = EIN_REGEX_search (str_or_empty (snippet r) @ '' '' @ str_or_empty (title r))"

definition page_hit :: "search_env \<Rightarrow> search_result \<Rightarrow> string option" where
  "page_hit env r =
     (case link r of
        None \<Rightarrow> None
      | Some l \<Rightarrow>
          if l = [] then None
          else (case requests_get_text env l of
                  None \<Rightarrow> None
                | Some page \<Rightarrow> EIN_REGEX_search page))"

section \<open>Batch enrichment loop (ein_enrichment.py)\<close>

text \<open>
  The loop of \<^verbatim>\<open>enrich_data\<close> over a world \<open>'w\<close> (the store and everything the
  processors reach). The rows the two \<^verbatim>\<open>SELECT\<close>s match and the effect of the two
  processors are parameters; \<open>None\<close> is an exception that leaves \<^verbatim>\<open>enrich_data\<close>.
\<close>

record ('w, 'o, 'e) enrich_env =
  select_organizers :: "'w \<Rightarrow> 'o list option"
  select_events :: "'w \<Rightarrow> 'e list option"
  process_single_organizer :: "'o \<Rightarrow> 'w \<Rightarrow> 'w option"
  process_single_event :: "'e \<Rightarrow> 'w \<Rightarrow> 'w option"

text \<open>The \<^verbatim>\<open>LIMIT %s\<close> of both queries.\<close>

definition fetch_organizers_to_enrich :: "('w, 'o, 'e) enrich_env \<Rightarrow> nat \<Rightarrow> 'w \<Rightarrow> 'o list option" where
  "fetch_organizers_to_enrich E batch_size w = map_option (take batch_size) (select_organizers E w)"

definition fetch_events_to_enrich :: "('w, 'o, 'e) enrich_env \<Rightarrow> nat \<Rightarrow> 'w \<Rightarrow> 'e list option" where
  "fetch_events_to_enrich E batch_size w = map_option (take batch_size) (select_events E w)"

text \<open>A \<^verbatim>\<open>for\<close> loop of the pass: process the record, \<^verbatim>\<open>processed += 1\<close>.\<close>

fun run_batch :: "('a \<Rightarrow> 'w \<Rightarrow> 'w option) \<Rightarrow> 'a list \<Rightarrow> int \<Rightarrow> 'w \<Rightarrow> (int \<times> 'w) option" where
  "run_batch f [] processed w = Some (processed, w)"
| "run_batch f (x # xs) processed w =
     (case f x w of None \<Rightarrow> None | Some w' \<Rightarrow> run_batch f xs (processed + 1) w')"

text \<open>
  The body of the \<^verbatim>\<open>while\<close> loop. The first component of the result is the test
  \<^verbatim>\<open>not orgs and not evs\<close>.
\<close>

definition enrich_pass :: "('w, 'o, 'e) enrich_env \<Rightarrow> int \<Rightarrow> 'w \<Rightarrow> (bool \<times> int \<times> 'w) option" where
  "enrich_pass E processed w =
     (case fetch_organizers_to_enrich E 8 w of
        None \<Rightarrow> None
      | Some orgs \<Rightarrow>
          (case run_batch (process_single_organizer E) orgs processed w of
             None \<Rightarrow> None
           | Some pw1 \<Rightarrow>
               (case fetch_events_to_enrich E 8 (snd pw1) of
                  None \<Rightarrow> None
                | Some evs \<Rightarrow>
                    (case run_batch (process_single_event E) evs (fst pw1) (snd pw1) of
                       None \<Rightarrow> None
                     | Some pw2 \<Rightarrow> Some (orgs = [] \<and> evs = [], fst pw2, snd pw2)))))"

lemma run_batch_count:
  "run_batch f xs processed w = Some pw \<Longrightarrow> fst pw = processed + int (length xs)"
  by (induction xs arbitrary: processed w) (auto split: option.splits)

lemma enrich_pass_progress:
  assumes "enrich_pass E processed w = Some (False, processed', w')"
  shows "processed < processed'"
proof -
  from assms obtain orgs pw1 evs pw2 where
    o: "run_batch (process_single_organizer E) orgs processed w = Some pw1" and
    e: "run_batch (process_single_event E) evs (fst pw1) (snd pw1) = Some pw2" and
    ne: "\<not> (orgs = [] \<and> evs = [])" and p: "processed' = fst pw2"
    by (auto simp: enrich_pass_def split: option.splits)
  from run_batch_count[OF o] run_batch_count[OF e] p
  have "processed' = processed + int (length orgs) + int (length evs)" by simp
  with ne show ?thesis by (cases orgs; cases evs) auto
qed

text \<open>\<^verbatim>\<open>while processed < limit: ... if not orgs and not evs: break\<close>\<close>

function enrich_loop :: "('w, 'o, 'e) enrich_env \<Rightarrow> int \<Rightarrow> int \<Rightarrow> 'w \<Rightarrow> (int \<times> 'w) option" where
  "enrich_loop E limit processed w =
     (if processed < limit then
        (case enrich_pass E processed w of
           None \<Rightarrow> None
         | Some (nothing_left, processed', w') \<Rightarrow>
             if nothing_left then Some (processed', w')
             else enrich_loop E limit processed' w')
      else Some (processed, w))"
  by pat_completeness auto
termination
  by (relation "measure (\<lambda>(E, limit, processed, w). nat (limit - processed))")
     (auto dest: enrich_pass_progress)

declare enrich_loop.simps [simp del]

text \<open>
  \<^verbatim>\<open>enrich_data(limit)\<close>: the number of records processed and the world it leaves, or
  \<open>None\<close> when an exception ended the run.
\<close>

definition enrich_data :: "('w, 'o, 'e) enrich_env \<Rightarrow> int \<Rightarrow> 'w \<Rightarrow> (int \<times> 'w) option" where
  "enrich_data E limit w = enrich_loop E limit 0 w"

section \<open>Example data\<close>

definition empty_store :: store where
  "empty_store = \<lparr>organizers = \<lparr>rows = [], next_id = 1\<rparr>, events = \<lparr>rows = [], next_id = 1\<rparr>\<rparr>"

definition gala_organizer :: pydict where
  "gala_organizer =
     [(''organizer_name'', PStr ''Example Gala''), (''organizer_website'', PStr ''example.org''),
      (''organizer_email'', PStr ''info@example.org'')]"

definition gala_organizer_variant :: pydict where
  "gala_organizer_variant =
     [(''organizer_name'', PStr '' EXAMPLE GALA ''), (''organizer_website'', PStr ''example.org''),
      (''organizer_phone'', PStr ''555-0100'')]"

definition gala_event :: pydict where
  "gala_event =
     [(''event_name'', PStr ''Spring Gala''), (''event_date'', PStr ''2025-05-01''),
      (''venue_name'', PStr ''Grand Hall''), (''dress_code'', PStr ''Formal'')]"

definition gala_event_variant :: pydict where
  "gala_event_variant =
     [(''event_name'', PStr ''SPRING GALA ''), (''event_date'', PStr ''2025-05-01''),
      (''venue_name'', PStr '' grand hall''), (''description'', PStr ''A later description'')]"

definition partial_gala :: pydict where
  "partial_gala =
     [(''event_name'', PStr ''Spring Gala''), (''venue_city'', PStr ''  ''),
      (''organizer_name'', PStr ''Example Foundation'')]"

definition gala_answer :: pydict where
  "gala_answer =
     [(''event_name'', PStr ''Another Name''), (''venue_city'', PStr ''Chicago''),
      (''venue_zip'', PStr ''60601''), (''dress_code'', PStr '' '')]"

definition gala_run :: link_run where
  "gala_run =
     \<lparr>html = Some ''<html><title>Spring Gala</title></html>'',
      parsed = Some partial_gala,
      deep = Some ([''https://example.org/about''], gala_answer),
      page_title = Some (Some ''Spring Gala''),
      date_parse = (\<lambda>s. None)\<rparr>"

definition gala_url :: string where
  "gala_url = ''https://example.org/gala''"

definition gala_extracted :: pydict where
  "gala_extracted =
     [(''event_name'', PStr ''Spring Gala''), (''venue_city'', PStr ''Chicago''),
      (''organizer_name'', PStr ''Example Foundation''), (''venue_zip'', PStr ''60601'')]"

definition gala_persisted :: pydict where
  "gala_persisted =
     [(''event_name'', PStr ''Spring Gala''), (''venue_city'', PStr ''Chicago''),
      (''organizer_name'', PStr ''Example Foundation''), (''venue_zip'', PStr ''60601''),
      (''registration_url'', PStr ''https://example.org/gala''), (''event_date'', PNone)]"

text \<open>An environment in which every provider call raises.\<close>

definition offline_env :: search_env where
  "offline_env =
     \<lparr>SERPAPI_KEY = ''SERPAI_KEY'', GoogleSearch_present = True,
      serpapi_organic_results = (\<lambda>q n. None),
      GOOGLE_API_KEY = ''GOOGLE_API_KEY'', GOOGLE_CSE_ID = ''GOOGLE_CSE_ID'',
      google_build_present = True,
      cse_client_items = (\<lambda>q n. None), cse_http_items = (\<lambda>q n. None),
      requests_get_text = (\<lambda>u. None)\<rparr>"

text \<open>
  An environment in which the primary provider answers the registry query for
  \<^verbatim>\<open>Example Foundation\<close> with one result whose snippet holds a tax id, and nothing else.
\<close>

definition registry_item :: raw_item where
  "registry_item =
     \<lparr>item_title = Some ''Example Foundation - Nonprofit Explorer'',
      item_link = Some ''https://projects.propublica.org/nonprofits/organizations/123456789'',
      item_url = None,
      item_snippet = Some ''Example Foundation. EIN: 12-3456789. Chicago, IL''\<rparr>"

definition registry_env :: search_env where
  "registry_env =
     offline_env\<lparr>serpapi_organic_results :=
       (\<lambda>q n. if q = ''Example Foundation site:projects.propublica.org OR site:apps.irs.gov''
              then Some [registry_item] else Some [])\<rparr>"

text \<open>
  An environment in which the primary provider answers the registry query for
  \<^verbatim>\<open>Example Foundation\<close> with one result that has the given snippet, no title and no
  link, and nothing else.
\<close>

definition snippet_env :: "string \<Rightarrow> search_env" where
  "snippet_env text =
     offline_env\<lparr>serpapi_organic_results :=
       (\<lambda>q n. if q = ''Example Foundation site:projects.propublica.org OR site:apps.irs.gov''
              then Some [\<lparr>item_title = None, item_link = None, item_url = None,
                           item_snippet = Some text\<rparr>]
              else Some [])\<rparr>"

text \<open>
  An environment in which the registry query gives one result whose snippet holds no tax
  id and whose page does.
\<close>

definition page_only_env :: search_env where
  "page_only_env =
     offline_env\<lparr>serpapi_organic_results :=
       (\<lambda>q n. if q = ''Example Foundation site:projects.propublica.org OR site:apps.irs.gov''
              then Some [\<lparr>item_title = Some ''Example Foundation'',
                           item_link = Some ''https://apps.irs.gov/app/eos/details'',
                           item_url = None,
                           item_snippet = Some ''Tax exempt organization search''\<rparr>]
              else Some []),
       requests_get_text :=
       (\<lambda>u. if u = ''https://apps.irs.gov/app/eos/details''
            then Some ''<td>EIN</td><td>12-3456789</td>'' else None)\<rparr>"

definition registry_result :: search_result where
  "registry_result =
     \<lparr>title = Some ''Example Foundation - Nonprofit Explorer'',
      link = Some ''https://projects.propublica.org/nonprofits/organizations/123456789'',
      snippet = Some ''Example Foundation. EIN: 12-3456789. Chicago, IL''\<rparr>"

text \<open>
  A world that is the number of organizers still incomplete: every one of them is
  selected, processing one completes it, and no event is incomplete.
\<close>

definition countdown_env :: "(nat, nat, nat) enrich_env" where
  "countdown_env =
     \<lparr>select_organizers = (\<lambda>w. Some [0..<w]), select_events = (\<lambda>w. Some []),
      process_single_organizer = (\<lambda>org w. Some (w - 1)),
      process_single_event = (\<lambda>ev w. Some w)\<rparr>"

text \<open>
  What \<^verbatim>\<open>json.loads\<close> answers on the texts \<^verbatim>\<open>[1, 2]\<close> (an array) and
  \<^verbatim>\<open>{"event_name": "Gala"}\<close> (an object); any other text is left to raise here.
\<close>

definition sample_loads :: "string \<Rightarrow> json option" where
  "sample_loads s =
     (if s = ''[1, 2]'' then Some (JArray [PInt 1, PInt 2])
      else if s = ''{'' @ [CHR 0x22] @ ''event_name'' @ [CHR 0x22] @ '': '' @ [CHR 0x22] @ ''Gala'' @ [CHR 0x22] @ ''}''
        then Some (JObject [(''event_name'', PStr ''Gala'')])
      else None)"

section \<open>Properties of the identity hash\<close>

lemma is_space_to_lower: "is_space (to_lower c) = is_space c"
  unfolding is_space_def to_lower_def Let_def by auto

lemma strip_py_lower: "strip (py_lower s) = py_lower (strip s)"
proof -
  have l: "\<And>u. dropWhile is_space (map to_lower u) = map to_lower (dropWhile is_space u)"
    by (simp add: dropWhile_map comp_def is_space_to_lower)
  show ?thesis
    unfolding strip_def lstrip_def rstrip_def py_lower_def
    by (simp add: l rev_map)
qed

lemma key_variant_truthy: "key_variant a b \<Longrightarrow> truthy a = truthy b"
  by (cases a; cases b) auto

lemma key_variant_norm:
  "key_variant a b \<Longrightarrow> strip (py_lower (py_str a)) = strip (py_lower (py_str b))"
  by (cases a; cases b) (auto simp: strip_py_lower)

lemma uid_raw_variant:
  assumes "list_all2 key_variant xs ys"
  shows "uid_raw xs = uid_raw ys"
proof -
  from assms
  have "map (\<lambda>a. strip (py_lower (py_str a))) (filter truthy xs) =
        map (\<lambda>a. strip (py_lower (py_str a))) (filter truthy ys)"
  proof (induction rule: list_all2_induct)
    case Nil
    show ?case by simp
  next
    case (Cons a xs b ys)
    then show ?case
      using key_variant_truthy[of a b] key_variant_norm[of a b] by auto
  qed
  then show ?thesis by (simp add: uid_raw_def)
qed

section \<open>Properties of the upsert\<close>

lemma find_append_new: "find P xs = None \<Longrightarrow> P x \<Longrightarrow> find P (xs @ [x]) = Some x"
  by (induction xs) auto

lemma insert_on_duplicate_key_again:
  assumes "insert_on_duplicate_key t uid cols = (i, t')"
  shows "insert_on_duplicate_key t' uid cols' = (i, t')"
proof (cases "find (\<lambda>r. row_uid r = uid) (rows t)")
  case None
  with assms have t': "t' = t\<lparr>rows := rows t @ [\<lparr>row_id = next_id t, row_uid = uid, row_cols = cols\<rparr>],
            next_id := Suc (next_id t)\<rparr>" and i: "i = next_id t"
    by (auto simp: insert_on_duplicate_key_def)
  have "find (\<lambda>r. row_uid r = uid) (rows t') = Some \<lparr>row_id = next_id t, row_uid = uid, row_cols = cols\<rparr>"
    unfolding t' using None by (simp add: find_append_new)
  then show ?thesis by (simp add: insert_on_duplicate_key_def i)
next
  case (Some r)
  with assms have "t' = t" "i = row_id r" by (auto simp: insert_on_duplicate_key_def)
  with Some show ?thesis by (simp add: insert_on_duplicate_key_def)
qed

lemma insert_organizer_again:
  assumes uid: "organizer_uid H d2 = organizer_uid H d1"
    and first: "insert_organizer H NoFault d1 s = (r1, s1)"
  shows "r1 \<noteq> None \<and> snd (insert_organizer H f d2 s1) = s1 \<and>
         fst (insert_organizer H NoFault d2 s1) = r1"
proof -
  obtain i t where it: "insert_on_duplicate_key (organizers s) (organizer_uid H d1) (organizer_values d1) = (i, t)"
    by (cases "insert_on_duplicate_key (organizers s) (organizer_uid H d1) (organizer_values d1)")
  with first have r1: "r1 = Some i" and s1: "s1 = s\<lparr>organizers := t\<rparr>"
    by (auto simp: insert_organizer_def)
  have again: "insert_on_duplicate_key (organizers s1) (organizer_uid H d2) (organizer_values d2) = (i, t)"
    using insert_on_duplicate_key_again[OF it] by (simp add: s1 uid)
  show ?thesis
    using again by (simp add: insert_organizer_def r1 s1)
qed

lemma insert_event_again:
  assumes uid: "event_uid H d2 = event_uid H d1"
    and first: "insert_event H NoFault d1 o1 s = (r1, s1)"
  shows "r1 = None \<and> insert_event H f d2 o2 s1 = (None, s1)"
proof -
  obtain i t where it: "insert_on_duplicate_key (events s) (event_uid H d1) (event_values d1 o1) = (i, t)"
    by (cases "insert_on_duplicate_key (events s) (event_uid H d1) (event_values d1 o1)")
  with first have r1: "r1 = None" and s1: "s1 = s\<lparr>events := t\<rparr>"
    by (auto simp: insert_event_def)
  have again: "insert_on_duplicate_key (events s1) (event_uid H d2) (event_values d2 o2) = (i, t)"
    using insert_on_duplicate_key_again[OF it] by (simp add: s1 uid)
  show ?thesis
    using again by (simp add: insert_event_def r1 s1)
qed

text \<open>
  C1. Upsert is idempotent, first write wins. When a record has been stored and a second
  record with the same identity key (the same uid) is upserted, the second call of
  \<^verbatim>\<open>insert_organizer\<close> returns the id the first call returned and leaves the store as it
  was, whatever the second call's database outcome; the second call of \<^verbatim>\<open>insert_event\<close>
  returns what the first returned (\<^verbatim>\<open>None\<close>: the function returns no id) and leaves the
  store as it was.
\<close>

theorem upsert_first_write_wins:
  "(organizer_uid H d2 = organizer_uid H d1 \<longrightarrow>
      (let first = insert_organizer H NoFault d1 s;
           again = insert_organizer H NoFault d2 (snd first)
       in fst first \<noteq> None \<and> fst again = fst first \<and> snd again = snd first \<and>
          snd (insert_organizer H f d2 (snd first)) = snd first)) \<and>
   (event_uid H e2 = event_uid H e1 \<longrightarrow>
      (let first = insert_event H NoFault e1 o1 s;
           again = insert_event H g e2 o2 (snd first)
       in fst again = fst first \<and> snd again = snd first))"
proof (intro conjI impI)
  assume uid: "organizer_uid H d2 = organizer_uid H d1"
  obtain r1 s1 where first: "insert_organizer H NoFault d1 s = (r1, s1)"
    by (cases "insert_organizer H NoFault d1 s")
  from insert_organizer_again[OF uid first, of f] insert_organizer_again[OF uid first, of NoFault]
  show "let first = insert_organizer H NoFault d1 s;
           again = insert_organizer H NoFault d2 (snd first)
       in fst first \<noteq> None \<and> fst again = fst first \<and> snd again = snd first \<and>
          snd (insert_organizer H f d2 (snd first)) = snd first"
    by (simp add: first Let_def)
next
  assume uid: "event_uid H e2 = event_uid H e1"
  obtain r1 s1 where first: "insert_event H NoFault e1 o1 s = (r1, s1)"
    by (cases "insert_event H NoFault e1 o1 s")
  from insert_event_again[OF uid first, of g o2]
  show "let first = insert_event H NoFault e1 o1 s;
           again = insert_event H g e2 o2 (snd first)
       in fst again = fst first \<and> snd again = snd first"
    by (simp add: first Let_def)
qed

theorem upsert_first_write_wins_witness:
  "\<forall>H. organizer_uid H gala_organizer_variant = organizer_uid H gala_organizer \<and>
       (let first = insert_organizer H NoFault gala_organizer empty_store;
            again = insert_organizer H NoFault gala_organizer_variant (snd first)
        in fst first \<noteq> None \<and> fst again = fst first \<and> snd again = snd first \<and>
           snd (insert_organizer H StatementError gala_organizer_variant (snd first)) = snd first) \<and>
       event_uid H gala_event_variant = event_uid H gala_event \<and>
       (let first = insert_event H NoFault gala_event (Some 1) empty_store;
            again = insert_event H NoFault gala_event_variant (Some 1) (snd first)
        in fst again = fst first \<and> snd again = snd first)"
proof
  fix H
  have "list_all2 key_variant
          [dict_get gala_organizer_variant ''organizer_name'', dict_get gala_organizer_variant ''organizer_website'']
          [dict_get gala_organizer ''organizer_name'', dict_get gala_organizer ''organizer_website'']"
    by code_simp
  then have o: "organizer_uid H gala_organizer_variant = organizer_uid H gala_organizer"
    unfolding organizer_uid_def generate_uid_def by (simp only: uid_raw_variant)
  have "list_all2 key_variant
          [dict_get gala_event_variant ''event_name'', event_date_of gala_event_variant, dict_get gala_event_variant ''venue_name'']
          [dict_get gala_event ''event_name'', event_date_of gala_event, dict_get gala_event ''venue_name'']"
    by code_simp
  then have e: "event_uid H gala_event_variant = event_uid H gala_event"
    unfolding event_uid_def generate_uid_def by (simp only: uid_raw_variant)
  from o e
    upsert_first_write_wins[where H = H and ?d2.0 = gala_organizer_variant and ?d1.0 = gala_organizer
      and s = empty_store and f = StatementError and ?e2.0 = gala_event_variant and ?e1.0 = gala_event
      and ?o1.0 = "Some 1" and g = NoFault and ?o2.0 = "Some 1"]
  show "organizer_uid H gala_organizer_variant = organizer_uid H gala_organizer \<and>
       (let first = insert_organizer H NoFault gala_organizer empty_store;
            again = insert_organizer H NoFault gala_organizer_variant (snd first)
        in fst first \<noteq> None \<and> fst again = fst first \<and> snd again = snd first \<and>
           snd (insert_organizer H StatementError gala_organizer_variant (snd first)) = snd first) \<and>
       event_uid H gala_event_variant = event_uid H gala_event \<and>
       (let first = insert_event H NoFault gala_event (Some 1) empty_store;
            again = insert_event H NoFault gala_event_variant (Some 1) (snd first)
        in fst again = fst first \<and> snd again = snd first)"
    by blast
qed

text \<open>
  C2 (as amended). The identity hash is stable under letter case and under leading and
  trailing whitespace of its non-empty key fields: tuples whose fields are pairwise
  variants of each other have the same uid, and two organizer records whose name and
  website are such variants resolve to the same organizer id.
\<close>

theorem generate_uid_case_and_outer_whitespace:
  "(list_all2 key_variant xs ys \<longrightarrow> generate_uid H xs = generate_uid H ys) \<and>
   (key_variant (dict_get d2 ''organizer_name'') (dict_get d1 ''organizer_name'') \<and>
    key_variant (dict_get d2 ''organizer_website'') (dict_get d1 ''organizer_website'') \<longrightarrow>
      fst (insert_organizer H NoFault d1 s) \<noteq> None \<and>
      fst (insert_organizer H NoFault d2 (snd (insert_organizer H NoFault d1 s))) =
      fst (insert_organizer H NoFault d1 s))"
proof (intro conjI impI)
  assume "list_all2 key_variant xs ys"
  then show "generate_uid H xs = generate_uid H ys"
    by (simp add: generate_uid_def uid_raw_variant)
next
  assume v: "key_variant (dict_get d2 ''organizer_name'') (dict_get d1 ''organizer_name'') \<and>
    key_variant (dict_get d2 ''organizer_website'') (dict_get d1 ''organizer_website'')"
  then have "list_all2 key_variant
      [dict_get d2 ''organizer_name'', dict_get d2 ''organizer_website'']
      [dict_get d1 ''organizer_name'', dict_get d1 ''organizer_website'']"
    by simp
  then have uid: "organizer_uid H d2 = organizer_uid H d1"
    unfolding organizer_uid_def generate_uid_def by (simp only: uid_raw_variant)
  obtain r1 s1 where first: "insert_organizer H NoFault d1 s = (r1, s1)"
    by (cases "insert_organizer H NoFault d1 s")
  from insert_organizer_again[OF uid first, of NoFault]
  show "fst (insert_organizer H NoFault d1 s) \<noteq> None" 
    and "fst (insert_organizer H NoFault d2 (snd (insert_organizer H NoFault d1 s))) =
      fst (insert_organizer H NoFault d1 s)"
    by (simp_all add: first)
qed

theorem generate_uid_case_and_outer_whitespace_witness:
  "\<forall>H. list_all2 key_variant [PStr ''Example Gala'', PStr ''example.org'']
                             [PStr '' EXAMPLE GALA '', PStr ''example.org''] \<and>
       generate_uid H [PStr ''Example Gala'', PStr ''example.org''] =
       generate_uid H [PStr '' EXAMPLE GALA '', PStr ''example.org''] \<and>
       key_variant (dict_get gala_organizer_variant ''organizer_name'') (dict_get gala_organizer ''organizer_name'') \<and>
       key_variant (dict_get gala_organizer_variant ''organizer_website'') (dict_get gala_organizer ''organizer_website'') \<and>
       fst (insert_organizer H NoFault gala_organizer empty_store) \<noteq> None \<and>
       fst (insert_organizer H NoFault gala_organizer_variant
              (snd (insert_organizer H NoFault gala_organizer empty_store))) =
       fst (insert_organizer H NoFault gala_organizer empty_store)"
proof
  fix H
  have v: "list_all2 key_variant [PStr ''Example Gala'', PStr ''example.org'']
                             [PStr '' EXAMPLE GALA '', PStr ''example.org'']"
    by code_simp
  have k1: "key_variant (dict_get gala_organizer_variant ''organizer_name'') (dict_get gala_organizer ''organizer_name'')"
    by code_simp
  have k2: "key_variant (dict_get gala_organizer_variant ''organizer_website'') (dict_get gala_organizer ''organizer_website'')"
    by code_simp
  from v k1 k2
    generate_uid_case_and_outer_whitespace[of "[PStr ''Example Gala'', PStr ''example.org'']"
      "[PStr '' EXAMPLE GALA '', PStr ''example.org'']" H gala_organizer_variant gala_organizer empty_store]
  show "list_all2 key_variant [PStr ''Example Gala'', PStr ''example.org'']
                             [PStr '' EXAMPLE GALA '', PStr ''example.org''] \<and>
       generate_uid H [PStr ''Example Gala'', PStr ''example.org''] =
       generate_uid H [PStr '' EXAMPLE GALA '', PStr ''example.org''] \<and>
       key_variant (dict_get gala_organizer_variant ''organizer_name'') (dict_get gala_organizer ''organizer_name'') \<and>
       key_variant (dict_get gala_organizer_variant ''organizer_website'') (dict_get gala_organizer ''organizer_website'') \<and>
       fst (insert_organizer H NoFault gala_organizer empty_store) \<noteq> None \<and>
       fst (insert_organizer H NoFault gala_organizer_variant
              (snd (insert_organizer H NoFault gala_organizer empty_store))) =
       fst (insert_organizer H NoFault gala_organizer empty_store)"
    by blast
qed

theorem generate_uid_inner_whitespace_counterexample:
  "uid_raw [PStr ''Example Gala'', PStr ''example.org''] \<noteq>
   uid_raw [PStr ''Example  Gala'', PStr ''example.org''] \<and>
   (\<exists>H. generate_uid H [PStr ''Example Gala'', PStr ''example.org''] \<noteq>
        generate_uid H [PStr ''Example  Gala'', PStr ''example.org'']) \<and>
   uid_raw [PStr '' '', PStr ''example.org''] \<noteq> uid_raw [PStr [], PStr ''example.org'']"
proof (intro conjI)
  show "uid_raw [PStr ''Example Gala'', PStr ''example.org''] \<noteq>
        uid_raw [PStr ''Example  Gala'', PStr ''example.org'']"
    by code_simp
  show "\<exists>H. generate_uid H [PStr ''Example Gala'', PStr ''example.org''] \<noteq>
        generate_uid H [PStr ''Example  Gala'', PStr ''example.org'']"
    by (rule exI[of _ "\<lambda>s. s"]) code_simp
  show "uid_raw [PStr '' '', PStr ''example.org''] \<noteq> uid_raw [PStr [], PStr ''example.org'']"
    by code_simp
qed

text \<open>
  C9. The identity hash is not injective on key-field tuples: falsy fields are dropped
  before the rest is joined with an unescaped \<^verbatim>\<open>"-"\<close>, so \<^verbatim>\<open>("a-b", None)\<close> and
  \<^verbatim>\<open>("a", "b")\<close> have the same uid, and so have a tuple with a missing first field and the
  tuple whose value moved to the first position.
\<close>

theorem generate_uid_not_injective:
  "generate_uid H [PStr ''a-b'', PNone] = generate_uid H [PStr ''a'', PStr ''b''] \<and>
   [PStr ''a-b'', PNone] \<noteq> [PStr ''a'', PStr ''b''] \<and>
   generate_uid H [PNone, PStr ''x''] = generate_uid H [PStr ''x'', PNone] \<and>
   [PNone, PStr ''x''] \<noteq> [PStr ''x'', PNone] \<and>
   generate_uid H (filter truthy xs) = generate_uid H xs"
proof -
  have "uid_raw [PStr ''a-b'', PNone] = uid_raw [PStr ''a'', PStr ''b'']" by code_simp
  moreover have "uid_raw [PNone, PStr ''x''] = uid_raw [PStr ''x'', PNone]" by code_simp
  moreover have "uid_raw (filter truthy xs) = uid_raw xs" by (simp add: uid_raw_def)
  ultimately show ?thesis by (simp add: generate_uid_def)
qed

section \<open>Properties of escalation and merge\<close>

lemma strip_empty_iff: "strip s = [] \<longleftrightarrow> list_all is_space s"
proof
  assume "list_all is_space s"
  then have "dropWhile is_space s = []" by (simp add: list_all_iff)
  then show "strip s = []"
    by (simp only: strip_def lstrip_def rstrip_def rev.simps dropWhile.simps)
next
  assume e: "strip s = []"
  define u where "u = dropWhile is_space s"
  from e have "dropWhile is_space (rev u) = []"
    by (simp add: strip_def lstrip_def rstrip_def u_def)
  then have all: "\<forall>c \<in> set u. is_space c"
    using dropWhile_eq_Nil_conv[of is_space "rev u"] by simp
  have "u = []"
  proof (cases u)
    case Nil
    then show ?thesis .
  next
    case (Cons c cs)
    then have "\<not> is_space c" using hd_dropWhile[of is_space s] by (simp add: u_def)
    with all Cons show ?thesis by simp
  qed
  then show "list_all is_space s"
    using dropWhile_eq_Nil_conv[of is_space s] by (simp add: u_def list_all_iff)
qed







lemma dict_get_dict_set: "dict_get (dict_set d k v) k' = (if k' = k then v else dict_get d k')"
  by (induction d) (auto simp: dict_get_def)

lemma merge_step_frame:
  assumes "truthy (dict_get d k)" "strip (py_str (dict_get d k)) \<noteq> []"
  shows "dict_get (merge_step kv d) k = dict_get d k"
  using assms by (auto simp: merge_step_def Let_def dict_get_dict_set)

lemma fold_merge_frame:
  assumes "truthy (dict_get d k)" "strip (py_str (dict_get d k)) \<noteq> []"
  shows "dict_get (fold merge_step synth d) k = dict_get d k"
  using assms
proof (induction synth arbitrary: d)
  case Nil
  show ?case by simp
next
  case (Cons kv synth)
  have eq: "dict_get (merge_step kv d) k = dict_get d k"
    using Cons.prems by (rule merge_step_frame)
  have "dict_get (fold merge_step synth (merge_step kv d)) k = dict_get (merge_step kv d) k"
    by (rule Cons.IH) (simp_all add: eq Cons.prems)
  with eq show ?case by simp
qed

lemma merge_step_source:
  "dict_get (merge_step kv d) k = dict_get d k \<or>
   (fst kv = k \<and> truthy (snd kv) \<and> dict_get (merge_step kv d) k = snd kv)"
  by (auto simp: merge_step_def Let_def dict_get_dict_set)

lemma fold_merge_source:
  "dict_get (fold merge_step synth d) k = dict_get d k \<or>
   (\<exists>v. (k, v) \<in> set synth \<and> truthy v \<and> dict_get (fold merge_step synth d) k = v)"
proof (induction synth arbitrary: d)
  case Nil
  show ?case by simp
next
  case (Cons kv synth)
  from Cons.IH[of "merge_step kv d"] merge_step_source[of kv d k]
  show ?case by (cases kv) fastforce
qed

lemma deep_synthesize_fields_values:
  assumes "(k, v) \<in> set (deep_synthesize_fields candidate_urls answer)"
  shows "k \<in> set REQUIRED_FIELDS \<and> v = dict_get answer k \<and> v \<noteq> PNone \<and> strip (py_str v) \<noteq> []"
  using assms by (auto simp: deep_synthesize_fields_def Let_def split: if_splits)

lemma text_record_value:
  "text_record d \<Longrightarrow> map_of d k = Some v \<Longrightarrow> is_text v"
  by (auto simp: text_record_def list_all_iff dest!: map_of_SomeD)

lemma text_record_missing_iff:
  assumes "text_record d"
  shows "field_missing d k \<longleftrightarrow> \<not> (truthy (dict_get d k) \<and> strip (py_str (dict_get d k)) \<noteq> [])"
proof (cases "map_of d k")
  case None
  then show ?thesis by (simp add: field_missing_def dict_get_def)
next
  case (Some v)
  with assms have t: "is_text v" by (rule text_record_value)
  show ?thesis
  proof (cases v)
    case PNone
    with Some show ?thesis by (simp add: field_missing_def dict_get_def)
  next
    case (PStr s)
    have "list_all is_space s \<longleftrightarrow> \<not> (s \<noteq> [] \<and> strip s \<noteq> [])"
      using strip_empty_iff[of s] by auto
    with Some PStr show ?thesis by (simp add: field_missing_def dict_get_def)
  next
    case (PBool b)
    with t show ?thesis by simp
  next
    case (PInt i)
    with t show ?thesis by simp
  qed
qed

text \<open>
  C3. Escalation merge never overwrites known data. For a record of string fields, the
  merge of \<^verbatim>\<open>process_links\<close> leaves every field unchanged whose value is non-empty after
  stripping whitespace; a field whose value it changes was absent, \<^verbatim>\<open>None\<close> or
  whitespace-empty and receives a value of the supplement; and the supplement of
  \<^verbatim>\<open>deep_synthesize_fields\<close> holds only schema fields that the model's answer populated
  with a value that is not \<^verbatim>\<open>None\<close> and not blank.
\<close>

theorem merge_never_overwrites_known_fields:
  "(text_record data \<and> \<not> field_missing data k \<longrightarrow>
      dict_get (merge_supplement data synth) k = dict_get data k) \<and>
   (text_record data \<and> dict_get (merge_supplement data synth) k' \<noteq> dict_get data k' \<longrightarrow>
      field_missing data k' \<and>
      (\<exists>v. (k', v) \<in> set synth \<and> truthy v \<and> dict_get (merge_supplement data synth) k' = v)) \<and>
   ((f, v) \<in> set (deep_synthesize_fields candidate_urls answer) \<longrightarrow>
      f \<in> set REQUIRED_FIELDS \<and> v = dict_get answer f \<and> v \<noteq> PNone \<and> strip (py_str v) \<noteq> [])"
proof -
  have frame: "text_record data \<and> \<not> field_missing data k \<longrightarrow>
      dict_get (merge_supplement data synth) k = dict_get data k" for k
    using text_record_missing_iff[of data k] fold_merge_frame[of data k synth]
    by (auto simp: merge_supplement_def)
  have source: "dict_get (merge_supplement data synth) k' \<noteq> dict_get data k' \<longrightarrow>
      (\<exists>v. (k', v) \<in> set synth \<and> truthy v \<and> dict_get (merge_supplement data synth) k' = v)"
    using fold_merge_source[of synth data k'] by (auto simp: merge_supplement_def)
  have supplement: "(f, v) \<in> set (deep_synthesize_fields candidate_urls answer) \<longrightarrow>
      f \<in> set REQUIRED_FIELDS \<and> v = dict_get answer f \<and> v \<noteq> PNone \<and> strip (py_str v) \<noteq> []"
    using deep_synthesize_fields_values by blast
  from frame[of k] frame[of k'] source supplement show ?thesis by blast
qed

theorem merge_never_overwrites_known_fields_witness:
  "text_record partial_gala \<and> \<not> field_missing partial_gala ''event_name'' \<and>
   dict_get (merge_supplement partial_gala (deep_synthesize_fields [''https://example.org/about''] gala_answer))
      ''event_name'' = dict_get partial_gala ''event_name'' \<and>
   dict_get (merge_supplement partial_gala (deep_synthesize_fields [''https://example.org/about''] gala_answer))
      ''venue_city'' \<noteq> dict_get partial_gala ''venue_city'' \<and>
   field_missing partial_gala ''venue_city'' \<and>
   dict_get (merge_supplement partial_gala (deep_synthesize_fields [''https://example.org/about''] gala_answer))
      ''venue_city'' = PStr ''Chicago'' \<and>
   (''venue_zip'', PStr ''60601'') \<in> set (deep_synthesize_fields [''https://example.org/about''] gala_answer) \<and>
   ''venue_zip'' \<in> set REQUIRED_FIELDS \<and> strip (py_str (PStr ''60601'')) \<noteq> []"
proof -
  let ?synth = "deep_synthesize_fields [''https://example.org/about''] gala_answer"
  have p0: "text_record partial_gala"
    by code_simp
  have p1: "\<not> field_missing partial_gala ''event_name''"
    by code_simp
  have p2: "dict_get (merge_supplement partial_gala ?synth) ''venue_city'' \<noteq> dict_get partial_gala ''venue_city''"
    by code_simp
  have p3: "(''venue_zip'', PStr ''60601'') \<in> set ?synth"
    by code_simp
  have e2: "dict_get (merge_supplement partial_gala ?synth) ''venue_city'' = PStr ''Chicago''"
    by code_simp
  from p0 p1 p2 p3 e2
    merge_never_overwrites_known_fields[where data = partial_gala and k = "''event_name''"
      and synth = ?synth and k' = "''venue_city''" and f = "''venue_zip''" and v = "PStr ''60601''"
      and candidate_urls = "[''https://example.org/about'']" and answer = gala_answer]
  show ?thesis by blast
qed

section \<open>Properties of the persisted record\<close>

lemma clean_step_other: "k' \<noteq> k \<Longrightarrow> dict_get (clean_step k d) k' = dict_get d k'"
  by (simp add: clean_step_def dict_get_dict_set)

lemma fold_clean_step_other:
  "k' \<notin> set ks \<Longrightarrow> dict_get (fold clean_step ks d) k' = dict_get d k'"
  by (induction ks arbitrary: d) (auto simp: clean_step_other)

lemma registration_url_not_cleaned: "''registration_url'' \<notin> set CLEANED_FIELDS"
  by (simp add: CLEANED_FIELDS_def)

lemma finish_record_registration_url:
  "dict_get (finish_record parse url pre) ''registration_url'' =
     (if truthy (dict_get pre ''registration_url'') then dict_get pre ''registration_url'' else PStr url)"
  by (simp add: finish_record_def Let_def fold_clean_step_other registration_url_not_cleaned dict_get_dict_set)

lemma prepare_record_finish:
  "prepare_record run url = Persist data \<Longrightarrow>
   \<exists>pre. extract_record run url = Persist pre \<and> data = finish_record (date_parse run) url pre"
  by (auto simp: prepare_record_def split: link_result.splits)

lemma fallback_registration_url: "dict_get (fallback_record t url) ''registration_url'' = PStr url"
  by (simp add: fallback_record_def REQUIRED_FIELDS_def dict_get_def)

lemma event_values_registration_url:
  "event_values data organizer_id ! 11 = dict_get data ''registration_url''"
  by (simp add: event_values_def)

text \<open>
  C10. Every record that reaches persistence has a non-empty registration url. When the
  record left by extraction, deep synthesis and fallback has no truthy
  \<^verbatim>\<open>registration_url\<close>, the field is set to the link's url, and it is not touched by the
  cleaning; so for a link with a non-empty url the record handed to the inserts, and the
  value bound to the \<^verbatim>\<open>registration_url\<close> column, are truthy. The fallback record carries
  the link's url as well.
\<close>

theorem persisted_registration_url:
  "(extract_record run url = Persist pre \<longrightarrow>
      prepare_record run url = Persist (finish_record (date_parse run) url pre) \<and>
      dict_get (finish_record (date_parse run) url pre) ''registration_url'' =
        (if truthy (dict_get pre ''registration_url'') then dict_get pre ''registration_url'' else PStr url)) \<and>
   (prepare_record run url = Persist data \<and> url \<noteq> [] \<longrightarrow>
      truthy (dict_get data ''registration_url'') \<and>
      truthy (event_values data organizer_id ! 11)) \<and>
   dict_get (fallback_record t url) ''registration_url'' = PStr url"
proof -
  have a: "extract_record run url = Persist pre \<longrightarrow>
      prepare_record run url = Persist (finish_record (date_parse run) url pre) \<and>
      dict_get (finish_record (date_parse run) url pre) ''registration_url'' =
        (if truthy (dict_get pre ''registration_url'') then dict_get pre ''registration_url'' else PStr url)"
    by (simp add: prepare_record_def finish_record_registration_url)
  have b: "prepare_record run url = Persist data \<and> url \<noteq> [] \<longrightarrow>
      truthy (dict_get data ''registration_url'') \<and>
      truthy (event_values data organizer_id ! 11)"
  proof
    assume h: "prepare_record run url = Persist data \<and> url \<noteq> []"
    then obtain pre where "data = finish_record (date_parse run) url pre"
      using prepare_record_finish by blast
    with h have "truthy (dict_get data ''registration_url'')"
      by (simp add: finish_record_registration_url)
    then show "truthy (dict_get data ''registration_url'') \<and> truthy (event_values data organizer_id ! 11)"
      by (simp add: event_values_registration_url)
  qed
  from a b fallback_registration_url show ?thesis by blast
qed

theorem persisted_registration_url_witness:
  "extract_record gala_run gala_url = Persist gala_extracted \<and>
   prepare_record gala_run gala_url = Persist (finish_record (date_parse gala_run) gala_url gala_extracted) \<and>
   dict_get (finish_record (date_parse gala_run) gala_url gala_extracted) ''registration_url'' = PStr gala_url \<and>
   prepare_record gala_run gala_url = Persist gala_persisted \<and> gala_url \<noteq> [] \<and>
   truthy (dict_get gala_persisted ''registration_url'') \<and>
   truthy (event_values gala_persisted (Some 1) ! 11)"
proof -
  have a: "extract_record gala_run gala_url = Persist gala_extracted"
    by code_simp
  have b: "prepare_record gala_run gala_url = Persist gala_persisted \<and> gala_url \<noteq> []"
    by code_simp
  have c: "\<not> truthy (dict_get gala_extracted ''registration_url'')"
    by code_simp
  from a b c
    persisted_registration_url[where run = gala_run and url = gala_url and pre = gala_extracted
      and data = gala_persisted and organizer_id = "Some 1"]
  show ?thesis by simp
qed

section \<open>Properties of the search client\<close>

text \<open>
  C7. \<^verbatim>\<open>unified_search\<close> calls the primary provider first; it calls the secondary
  provider exactly when the primary returned no result, and then returns the secondary's
  results; an error of the primary is swallowed and counts as no result; the function
  returns a list on every path, and the empty list when no provider works.
\<close>

theorem unified_search_failover:
  "hd (fst (unified_search env query n)) = SerpAPI \<and>
   fst (unified_search env query n) =
     (if serpapi_search env query n = [] then [SerpAPI, GoogleCSE] else [SerpAPI]) \<and>
   (GoogleCSE \<in> set (fst (unified_search env query n))) = (serpapi_search env query n = []) \<and>
   snd (unified_search env query n) =
     (if serpapi_search env query n = [] then google_cse_search env query n
      else serpapi_search env query n) \<and>
   (serpapi_organic_results env query n = None \<longrightarrow> serpapi_search env query n = []) \<and>
   ((SERPAPI_KEY env = [] \<or> \<not> GoogleSearch_present env \<or> serpapi_organic_results env query n = None) \<and>
    (GOOGLE_API_KEY env = [] \<or> GOOGLE_CSE_ID env = [] \<or>
     ((\<not> google_build_present env \<or> cse_client_items env query (min n 500) = None) \<and>
      cse_http_items env query n = None)) \<longrightarrow>
    unified_search env query n = ([SerpAPI, GoogleCSE], []))"
proof -
  have swallowed: "serpapi_organic_results env query n = None \<longrightarrow> serpapi_search env query n = []"
    by (simp add: serpapi_search_def)
  have none: "(SERPAPI_KEY env = [] \<or> \<not> GoogleSearch_present env \<or> serpapi_organic_results env query n = None) \<and>
    (GOOGLE_API_KEY env = [] \<or> GOOGLE_CSE_ID env = [] \<or>
     ((\<not> google_build_present env \<or> cse_client_items env query (min n 500) = None) \<and>
      cse_http_items env query n = None)) \<longrightarrow>
    unified_search env query n = ([SerpAPI, GoogleCSE], [])"
  proof
    assume h: "(SERPAPI_KEY env = [] \<or> \<not> GoogleSearch_present env \<or> serpapi_organic_results env query n = None) \<and>
    (GOOGLE_API_KEY env = [] \<or> GOOGLE_CSE_ID env = [] \<or>
     ((\<not> google_build_present env \<or> cse_client_items env query (min n 500) = None) \<and>
      cse_http_items env query n = None))"
    then have s: "serpapi_search env query n = []"
      by (auto simp: serpapi_search_def)
    from h have g: "google_cse_search env query n = []"
      by (auto simp: google_cse_search_def cse_http_def)
    from s g show "unified_search env query n = ([SerpAPI, GoogleCSE], [])"
      by (simp add: unified_search_def)
  qed
  have shape: "hd (fst (unified_search env query n)) = SerpAPI \<and>
   fst (unified_search env query n) =
     (if serpapi_search env query n = [] then [SerpAPI, GoogleCSE] else [SerpAPI]) \<and>
   (GoogleCSE \<in> set (fst (unified_search env query n))) = (serpapi_search env query n = []) \<and>
   snd (unified_search env query n) =
     (if serpapi_search env query n = [] then google_cse_search env query n
      else serpapi_search env query n)"
    by (simp add: unified_search_def Let_def)
  from shape swallowed none show ?thesis by blast
qed

theorem unified_search_failover_witness:
  "serpapi_organic_results offline_env ''gala'' 6 = None \<and>
   serpapi_search offline_env ''gala'' 6 = [] \<and>
   cse_client_items offline_env ''gala'' (min 6 500) = None \<and>
   cse_http_items offline_env ''gala'' 6 = None \<and>
   unified_search offline_env ''gala'' 6 = ([SerpAPI, GoogleCSE], [])"
proof -
  have a: "serpapi_organic_results offline_env ''gala'' 6 = None"
    by (simp add: offline_env_def)
  have b: "cse_client_items offline_env ''gala'' (min 6 500) = None \<and> cse_http_items offline_env ''gala'' 6 = None"
    by (simp add: offline_env_def)
  from a b unified_search_failover[of offline_env "''gala''" 6]
  show ?thesis by blast
qed

section \<open>Properties of the EIN locator\<close>

lemma ein_at_shape: "ein_at s \<Longrightarrow> ein_shape (take 10 s)"
  by (auto simp: ein_at_def ein_shape_def min_def drop_take)

lemma ein_search_from_shape: "ein_search_from b s = Some m \<Longrightarrow> ein_shape m"
proof (induction s arbitrary: b)
  case Nil
  then show ?case by simp
next
  case (Cons c cs)
  show ?case
  proof (cases "\<not> b \<and> ein_at (c # cs)")
    case True
    with Cons.prems have "m = take 10 (c # cs)" by (simp del: take_Suc_Cons)
    with True ein_at_shape[of "c # cs"] show ?thesis by blast
  next
    case False
    with Cons.prems have "ein_search_from (is_word_char c) cs = Some m" by auto
    then show ?thesis by (rule Cons.IH)
  qed
qed

lemma ein_shape_truthy: "ein_shape m \<Longrightarrow> opt_truthy (Some m)"
  by (auto simp: ein_shape_def opt_truthy_def)

lemma extract_shape: "extract_ein_from_snippet s = Some m \<Longrightarrow> ein_shape m"
  by (auto simp: extract_ein_from_snippet_def EIN_REGEX_search_def ein_search_from_shape split: if_splits)

lemma scan_snippets_shape: "scan_snippets rs = Some m \<Longrightarrow> ein_shape m"
  by (induction rs) (auto simp: Let_def extract_shape split: if_splits)

lemma scan_pages_shape: "scan_pages env rs = Some m \<Longrightarrow> ein_shape m"
  by (induction rs) (auto simp: EIN_REGEX_search_def ein_search_from_shape split: if_splits option.splits)

lemma search_site_shape: "search_site_for_ein env q = Some m \<Longrightarrow> ein_shape m"
  by (auto simp: search_site_for_ein_def Let_def scan_snippets_shape scan_pages_shape split: option.splits)

lemma search_site_truthy: "opt_truthy (search_site_for_ein env q) = (search_site_for_ein env q \<noteq> None)"
  using search_site_shape[of env q] ein_shape_truthy
  by (cases "search_site_for_ein env q") (auto simp: opt_truthy_def)

lemma multisource_trace:
  "(let r = search_ein_multisource env name in
      fst r \<noteq> [] \<and> length (fst r) \<le> 4 \<and>
      fst r = take (length (fst r)) (EIN_QUERIES name) \<and>
      list_all (\<lambda>q. search_site_for_ein env q = None) (butlast (fst r)) \<and>
      snd r = search_site_for_ein env (last (fst r)) \<and>
      (length (fst r) < 4 \<longrightarrow> snd r \<noteq> None))"
  by (simp add: search_ein_multisource_def EIN_QUERIES_def Let_def search_site_truthy)

lemma multisource_shape: "snd (search_ein_multisource env name) = Some m \<Longrightarrow> ein_shape m"
  by (auto simp: search_ein_multisource_def Let_def search_site_shape split: if_splits)

lemma multisource_exhausted:
  "list_all (\<lambda>q. search_site_for_ein env q = None) (EIN_QUERIES name) \<Longrightarrow>
   search_ein_multisource env name = (EIN_QUERIES name, None)"
  by (simp add: search_ein_multisource_def EIN_QUERIES_def Let_def opt_truthy_def)

lemma ein_at_iff:
  "ein_at t \<longleftrightarrow> (10 \<le> length t \<and> ein_shape (take 10 t) \<and> (length t = 10 \<or> \<not> is_word_char (t ! 10)))"
proof (cases "10 \<le> length t")
  case False
  then show ?thesis by (simp add: ein_at_def)
next
  case True
  have d: "drop 3 (take 10 t) = take 7 (drop 3 t)" by (simp add: drop_take)
  have b: "(drop 10 t = [] \<or> \<not> is_word_char (hd (drop 10 t))) \<longleftrightarrow>
           (length t = 10 \<or> \<not> is_word_char (t ! 10))"
  proof (cases "length t = 10")
    case True
    then show ?thesis by simp
  next
    case False
    with \<open>10 \<le> length t\<close> have "10 < length t" by simp
    then show ?thesis by (simp add: hd_drop_conv_nth)
  qed
  from True show ?thesis
    unfolding ein_at_def ein_shape_def d b by (simp add: min_def)
qed

lemma occurs_after_Nil: "\<not> ein_occurs_after prev [] i"
  by (simp add: ein_occurs_after_def)

lemma occurs_after_0: "ein_occurs_after prev (c # cs) 0 = (\<not> prev \<and> ein_at (c # cs))"
  unfolding ein_occurs_after_def ein_at_iff by auto

lemma occurs_after_Suc:
  "ein_occurs_after prev (c # cs) (Suc j) = ein_occurs_after (is_word_char c) cs j"
  unfolding ein_occurs_after_def by (cases j) auto

lemma ein_search_from_sound:
  "ein_search_from prev s = Some m \<Longrightarrow>
   \<exists>i. ein_occurs_after prev s i \<and> (\<forall>j<i. \<not> ein_occurs_after prev s j) \<and> m = take 10 (drop i s)"
proof (induction s arbitrary: prev)
  case Nil
  then show ?case by simp
next
  case (Cons c cs)
  show ?case
  proof (cases "\<not> prev \<and> ein_at (c # cs)")
    case True
    with Cons.prems have "m = take 10 (drop 0 (c # cs))" by (simp del: take_Suc_Cons)
    moreover from True have "ein_occurs_after prev (c # cs) 0" by (simp add: occurs_after_0)
    ultimately show ?thesis by blast
  next
    case False
    with Cons.prems have "ein_search_from (is_word_char c) cs = Some m" by auto
    from Cons.IH[OF this] obtain i where
      i: "ein_occurs_after (is_word_char c) cs i"
         "\<forall>j<i. \<not> ein_occurs_after (is_word_char c) cs j" "m = take 10 (drop i cs)"
      by blast
    have "ein_occurs_after prev (c # cs) (Suc i)" using i(1) by (simp add: occurs_after_Suc)
    moreover have "\<forall>j<Suc i. \<not> ein_occurs_after prev (c # cs) j"
    proof (intro allI impI)
      fix j assume "j < Suc i"
      show "\<not> ein_occurs_after prev (c # cs) j"
      proof (cases j)
        case 0
        with False show ?thesis by (simp add: occurs_after_0)
      next
        case (Suc j')
        with \<open>j < Suc i\<close> i(2) show ?thesis by (simp add: occurs_after_Suc)
      qed
    qed
    moreover have "m = take 10 (drop (Suc i) (c # cs))" using i(3) by simp
    ultimately show ?thesis by blast
  qed
qed

lemma ein_search_from_complete:
  "ein_occurs_after prev s i \<Longrightarrow> ein_search_from prev s \<noteq> None"
proof (induction s arbitrary: prev i)
  case Nil
  then show ?case by (simp add: occurs_after_Nil)
next
  case (Cons c cs)
  show ?case
  proof (cases "\<not> prev \<and> ein_at (c # cs)")
    case True
    then show ?thesis by simp
  next
    case False
    with Cons.prems obtain j where "i = Suc j"
      by (cases i) (auto simp: occurs_after_0)
    with Cons.prems have "ein_occurs_after (is_word_char c) cs j" by (simp add: occurs_after_Suc)
    from Cons.IH[OF this] False show ?thesis by auto
  qed
qed

lemma occurs_at_after: "ein_occurs_at s i = ein_occurs_after False s i"
  unfolding ein_occurs_at_def ein_occurs_after_def by auto

lemma EIN_REGEX_search_leftmost:
  "(EIN_REGEX_search s = Some m) \<longleftrightarrow>
   (\<exists>i. ein_occurs_at s i \<and> (\<forall>j<i. \<not> ein_occurs_at s j) \<and> m = take 10 (drop i s))"
proof
  assume "EIN_REGEX_search s = Some m"
  then show "\<exists>i. ein_occurs_at s i \<and> (\<forall>j<i. \<not> ein_occurs_at s j) \<and> m = take 10 (drop i s)"
    using ein_search_from_sound[of False s m] by (simp add: EIN_REGEX_search_def occurs_at_after)
next
  assume "\<exists>i. ein_occurs_at s i \<and> (\<forall>j<i. \<not> ein_occurs_at s j) \<and> m = take 10 (drop i s)"
  then obtain i where i: "ein_occurs_at s i" "\<forall>j<i. \<not> ein_occurs_at s j" "m = take 10 (drop i s)"
    by blast
  from i(1) obtain m' where m': "EIN_REGEX_search s = Some m'"
    using ein_search_from_complete[of False s i] by (auto simp: EIN_REGEX_search_def occurs_at_after)
  then obtain i' where i': "ein_occurs_at s i'" "\<forall>j<i'. \<not> ein_occurs_at s j" "m' = take 10 (drop i' s)"
    using ein_search_from_sound[of False s m'] by (auto simp: EIN_REGEX_search_def occurs_at_after)
  have "i' = i"
  proof (rule ccontr)
    assume "i' \<noteq> i"
    then have "i' < i \<or> i < i'" by auto
    with i(1,2) i'(1,2) show False by blast
  qed
  with m' i(3) i'(3) show "EIN_REGEX_search s = Some m" by simp
qed

lemma EIN_REGEX_search_none:
  "(EIN_REGEX_search s = None) \<longleftrightarrow> (\<forall>i. \<not> ein_occurs_at s i)"
proof
  assume n: "EIN_REGEX_search s = None"
  show "\<forall>i. \<not> ein_occurs_at s i"
  proof
    fix i
    show "\<not> ein_occurs_at s i"
      using ein_search_from_complete[of False s i] n
      by (auto simp: EIN_REGEX_search_def occurs_at_after)
  qed
next
  assume a: "\<forall>i. \<not> ein_occurs_at s i"
  show "EIN_REGEX_search s = None"
  proof (cases "EIN_REGEX_search s")
    case None
    then show ?thesis .
  next
    case (Some m)
    with a show ?thesis using EIN_REGEX_search_leftmost[of s m] by blast
  qed
qed


lemma EIN_REGEX_search_Nil: "EIN_REGEX_search [] = None"
  by (simp add: EIN_REGEX_search_def)

lemma extract_is_search: "extract_ein_from_snippet s = EIN_REGEX_search s"
  by (simp add: extract_ein_from_snippet_def EIN_REGEX_search_Nil)

lemma EIN_REGEX_search_truthy: "opt_truthy (EIN_REGEX_search s) = (EIN_REGEX_search s \<noteq> None)"
proof (cases "EIN_REGEX_search s")
  case None
  then show ?thesis by (simp add: opt_truthy_def)
next
  case (Some m)
  then have "ein_shape m" by (simp add: EIN_REGEX_search_def ein_search_from_shape)
  with Some show ?thesis using ein_shape_truthy by simp
qed

lemma scan_snippets_Cons:
  "scan_snippets (r # rs) = (if snippet_hit r \<noteq> None then snippet_hit r else scan_snippets rs)"
  using EIN_REGEX_search_truthy[of "str_or_empty (snippet r) @ '' '' @ str_or_empty (title r)"]
  by (simp add: Let_def extract_is_search snippet_hit_def)

lemma scan_snippets_first: "scan_snippets rs = first_some (map snippet_hit rs)"
proof (induction rs)
  case Nil
  show ?case by simp
next
  case (Cons r rs)
  then show ?case
    by (cases "snippet_hit r") (simp_all add: scan_snippets_Cons del: scan_snippets.simps)
qed

lemma scan_pages_first: "scan_pages env rs = first_some (map (page_hit env) rs)"
proof (induction rs)
  case Nil
  show ?case by simp
next
  case (Cons r rs)
  show ?case
  proof (cases "page_hit env r")
    case None
    with Cons show ?thesis
      by (auto simp: page_hit_def EIN_REGEX_search_Nil split: option.splits if_splits)
  next
    case (Some m)
    then show ?thesis
      by (auto simp: page_hit_def EIN_REGEX_search_Nil split: option.splits if_splits)
  qed
qed

lemma search_site_first:
  "search_site_for_ein env q =
     (case first_some (map snippet_hit (snd (unified_search env q 6))) of
        Some m \<Rightarrow> Some m
      | None \<Rightarrow> first_some (map (page_hit env) (snd (unified_search env q 6))))"
  by (simp add: search_site_for_ein_def Let_def scan_snippets_first scan_pages_first
      split: option.splits)

lemma first_some_skip:
  "list_all (\<lambda>x. f x = None) xs \<Longrightarrow> first_some (map f (xs @ y # ys)) = first_some (map f (y # ys))"
  by (induction xs) auto

lemma multisource_first_match:
  assumes "snd (unified_search env (hd (EIN_QUERIES name)) 6) = rs1 @ r # rs2"
    and "list_all (\<lambda>r'. snippet_hit r' = None) rs1"
    and "ein_occurs_at (str_or_empty (snippet r) @ '' '' @ str_or_empty (title r)) i"
    and "\<forall>j<i. \<not> ein_occurs_at (str_or_empty (snippet r) @ '' '' @ str_or_empty (title r)) j"
    and "take 10 (drop i (str_or_empty (snippet r) @ '' '' @ str_or_empty (title r))) = ''12-3456789''"
  shows "search_ein_multisource env name = ([hd (EIN_QUERIES name)], Some ''12-3456789'')"
proof -
  have "snippet_hit r = Some ''12-3456789''"
    unfolding snippet_hit_def EIN_REGEX_search_leftmost using assms(3,4,5) by metis
  then have "first_some (map snippet_hit (rs1 @ r # rs2)) = Some ''12-3456789''"
    using first_some_skip[OF assms(2), of r rs2] by simp
  then have "search_site_for_ein env (hd (EIN_QUERIES name)) = Some ''12-3456789''"
    by (simp add: search_site_first assms(1))
  then show ?thesis
    by (simp add: search_ein_multisource_def EIN_QUERIES_def Let_def opt_truthy_def)
qed

text \<open>
  C6 (as amended). The EIN locator issues its four queries in the fixed order registry
  sites, aggregator site, charity-rating site, generic query, and stops at the first
  query that finds a tax id: the queries issued are a prefix of the four, every query
  before the last issued found nothing, the answer is the answer of the last query
  issued, and fewer than four queries are issued only on a match. One query answers with
  the first result, in result order, whose concatenated snippet and title holds the
  pattern, and when no snippet and title holds it, with the first result whose fetched
  page text holds it. The pattern search finds a tax id exactly when the pattern occurs
  between word boundaries, and then the leftmost occurrence. Every tax id returned is two
  digits, a hyphen and seven digits. When all four queries find nothing the answer is
  \<^verbatim>\<open>None\<close>. When \<^verbatim>\<open>12-3456789\<close> is the leftmost occurrence of the pattern in the snippet
  and title of a result of the first query, and no earlier result of that query holds the
  pattern, the answer is \<^verbatim>\<open>12-3456789\<close> after that one query.
\<close>

theorem ein_locator_first_match:
  "(let r = search_ein_multisource env name in
      fst r \<noteq> [] \<and> length (fst r) \<le> 4 \<and>
      fst r = take (length (fst r)) (EIN_QUERIES name) \<and>
      list_all (\<lambda>q. search_site_for_ein env q = None) (butlast (fst r)) \<and>
      snd r = search_site_for_ein env (last (fst r)) \<and>
      (length (fst r) < 4 \<longrightarrow> snd r \<noteq> None)) \<and>
   search_site_for_ein env q =
     (case first_some (map snippet_hit (snd (unified_search env q 6))) of
        Some m \<Rightarrow> Some m
      | None \<Rightarrow> first_some (map (page_hit env) (snd (unified_search env q 6)))) \<and>
   ((EIN_REGEX_search s = Some m') =
      (\<exists>i. ein_occurs_at s i \<and> (\<forall>j<i. \<not> ein_occurs_at s j) \<and> m' = take 10 (drop i s))) \<and>
   ((EIN_REGEX_search s = None) = (\<forall>i. \<not> ein_occurs_at s i)) \<and>
   (snd (search_ein_multisource env name) = Some m \<longrightarrow> ein_shape m) \<and>
   (list_all (\<lambda>q. search_site_for_ein env q = None) (EIN_QUERIES name) \<longrightarrow>
      search_ein_multisource env name = (EIN_QUERIES name, None)) \<and>
   (snd (unified_search env (hd (EIN_QUERIES name)) 6) = rs1 @ r # rs2 \<and>
    list_all (\<lambda>r'. snippet_hit r' = None) rs1 \<and>
    ein_occurs_at (str_or_empty (snippet r) @ '' '' @ str_or_empty (title r)) i \<and>
    (\<forall>j<i. \<not> ein_occurs_at (str_or_empty (snippet r) @ '' '' @ str_or_empty (title r)) j) \<and>
    take 10 (drop i (str_or_empty (snippet r) @ '' '' @ str_or_empty (title r))) = ''12-3456789'' \<longrightarrow>
      search_ein_multisource env name = ([hd (EIN_QUERIES name)], Some ''12-3456789''))"
proof -
  note multisource_trace[of env name]
  moreover note search_site_first[of env q]
  moreover note EIN_REGEX_search_leftmost[of s m']
  moreover note EIN_REGEX_search_none[of s]
  moreover have "snd (search_ein_multisource env name) = Some m \<longrightarrow> ein_shape m"
    using multisource_shape by blast
  moreover have "list_all (\<lambda>q. search_site_for_ein env q = None) (EIN_QUERIES name) \<longrightarrow>
      search_ein_multisource env name = (EIN_QUERIES name, None)"
    using multisource_exhausted by blast
  moreover have "snd (unified_search env (hd (EIN_QUERIES name)) 6) = rs1 @ r # rs2 \<and>
    list_all (\<lambda>r'. snippet_hit r' = None) rs1 \<and>
    ein_occurs_at (str_or_empty (snippet r) @ '' '' @ str_or_empty (title r)) i \<and>
    (\<forall>j<i. \<not> ein_occurs_at (str_or_empty (snippet r) @ '' '' @ str_or_empty (title r)) j) \<and>
    take 10 (drop i (str_or_empty (snippet r) @ '' '' @ str_or_empty (title r))) = ''12-3456789'' \<longrightarrow>
      search_ein_multisource env name = ([hd (EIN_QUERIES name)], Some ''12-3456789'')"
    using multisource_first_match[of env name rs1 r rs2 i] by blast
  ultimately show ?thesis by (intro conjI)
qed

theorem ein_locator_first_match_witness:
  "snd (unified_search registry_env (hd (EIN_QUERIES ''Example Foundation'')) 6) = [] @ registry_result # [] \<and>
   list_all (\<lambda>r'. snippet_hit r' = None) [] \<and>
   (\<exists>i. ein_occurs_at (str_or_empty (snippet registry_result) @ '' '' @ str_or_empty (title registry_result)) i \<and>
        (\<forall>j<i. \<not> ein_occurs_at (str_or_empty (snippet registry_result) @ '' '' @ str_or_empty (title registry_result)) j) \<and>
        take 10 (drop i (str_or_empty (snippet registry_result) @ '' '' @ str_or_empty (title registry_result))) = ''12-3456789'') \<and>
   search_ein_multisource registry_env ''Example Foundation'' =
     ([hd (EIN_QUERIES ''Example Foundation'')], Some ''12-3456789'') \<and>
   length (fst (search_ein_multisource registry_env ''Example Foundation'')) < 4 \<and>
   snd (search_ein_multisource registry_env ''Example Foundation'') \<noteq> None \<and>
   ein_shape ''12-3456789'' \<and>
   list_all (\<lambda>q. search_site_for_ein offline_env q = None) (EIN_QUERIES ''Example Foundation'') \<and>
   search_ein_multisource offline_env ''Example Foundation'' = (EIN_QUERIES ''Example Foundation'', None) \<and>
   first_some (map snippet_hit (snd (unified_search page_only_env (hd (EIN_QUERIES ''Example Foundation'')) 6))) = None \<and>
   search_site_for_ein page_only_env (hd (EIN_QUERIES ''Example Foundation'')) = Some ''12-3456789''"
proof -
  let ?text = "str_or_empty (snippet registry_result) @ '' '' @ str_or_empty (title registry_result)"
  have a: "snd (unified_search registry_env (hd (EIN_QUERIES ''Example Foundation'')) 6) = [] @ registry_result # []"
    by code_simp
  have b: "list_all (\<lambda>r'. snippet_hit r' = None) []"
    by simp
  have "EIN_REGEX_search ?text = Some ''12-3456789''"
    by code_simp
  then have c: "\<exists>i. ein_occurs_at ?text i \<and> (\<forall>j<i. \<not> ein_occurs_at ?text j) \<and>
        take 10 (drop i ?text) = ''12-3456789''"
    using ein_locator_first_match[where s = ?text and m' = "''12-3456789''"] by metis
  then obtain i where i: "ein_occurs_at ?text i" "\<forall>j<i. \<not> ein_occurs_at ?text j"
      "take 10 (drop i ?text) = ''12-3456789''"
    by blast
  note t1 = ein_locator_first_match[where env = registry_env and name = "''Example Foundation''"
      and ?rs1.0 = "[]" and r = registry_result and ?rs2.0 = "[]" and i = i and m = "''12-3456789''"]
  from a b i t1 have g: "search_ein_multisource registry_env ''Example Foundation'' =
     ([hd (EIN_QUERIES ''Example Foundation'')], Some ''12-3456789'')"
    by blast
  then have j: "length (fst (search_ein_multisource registry_env ''Example Foundation'')) < 4 \<and>
      snd (search_ein_multisource registry_env ''Example Foundation'') \<noteq> None"
    by simp
  from g t1 have h: "ein_shape ''12-3456789''" by simp
  have f: "list_all (\<lambda>q. search_site_for_ein offline_env q = None) (EIN_QUERIES ''Example Foundation'')"
    by code_simp
  note t2 = ein_locator_first_match[where env = offline_env and name = "''Example Foundation''"]
  from f t2 have e: "search_ein_multisource offline_env ''Example Foundation'' = (EIN_QUERIES ''Example Foundation'', None)"
    by blast
  have p1: "first_some (map snippet_hit (snd (unified_search page_only_env (hd (EIN_QUERIES ''Example Foundation'')) 6))) = None"
    by code_simp
  have p2: "first_some (map (page_hit page_only_env) (snd (unified_search page_only_env (hd (EIN_QUERIES ''Example Foundation'')) 6))) = Some ''12-3456789''"
    by code_simp
  note t3 = ein_locator_first_match[where env = page_only_env and q = "hd (EIN_QUERIES ''Example Foundation'')"]
  from t3 p1 p2 have p: "search_site_for_ein page_only_env (hd (EIN_QUERIES ''Example Foundation'')) = Some ''12-3456789''"
    by simp
  from a b c g j h f e p1 p show ?thesis by blast
qed

text \<open>
  A snippet that merely contains \<^verbatim>\<open>12-3456789\<close> is not enough: after another tax id the
  earlier one is returned, and glued to a word character it is no match.
\<close>

theorem ein_locator_later_id_counterexample:
  "snd (unified_search (snippet_env ''Ref 11-1111111; EIN 12-3456789'')
          (hd (EIN_QUERIES ''Example Foundation'')) 6) =
     [\<lparr>title = None, link = None, snippet = Some ''Ref 11-1111111; EIN 12-3456789''\<rparr>] \<and>
   search_ein_multisource (snippet_env ''Ref 11-1111111; EIN 12-3456789'') ''Example Foundation'' =
     ([hd (EIN_QUERIES ''Example Foundation'')], Some ''11-1111111'') \<and>
   snd (unified_search (snippet_env ''Case no. X12-3456789'')
          (hd (EIN_QUERIES ''Example Foundation'')) 6) =
     [\<lparr>title = None, link = None, snippet = Some ''Case no. X12-3456789''\<rparr>] \<and>
   snd (search_ein_multisource (snippet_env ''Case no. X12-3456789'') ''Example Foundation'') = None"
  by code_simp

section \<open>Properties of the batch enrichment loop\<close>

lemma run_batch_some:
  "(\<And>x w. f x w \<noteq> None) \<Longrightarrow> run_batch f xs processed w \<noteq> None"
  by (induction xs arbitrary: processed w) (auto split: option.splits)

lemma enrich_pass_bounds:
  assumes "enrich_pass E processed w = Some (nothing_left, processed', w')"
  shows "processed \<le> processed' \<and> processed' \<le> processed + 16 \<and>
         (nothing_left \<longrightarrow> processed' = processed)"
proof -
  from assms obtain so se pw1 pw2 where
    fo: "select_organizers E w = Some so" and
    o: "run_batch (process_single_organizer E) (take 8 so) processed w = Some pw1" and
    fe: "select_events E (snd pw1) = Some se" and
    e: "run_batch (process_single_event E) (take 8 se) (fst pw1) (snd pw1) = Some pw2" and
    nl: "nothing_left = (take 8 so = [] \<and> take 8 se = [])" and p: "processed' = fst pw2"
    by (auto simp: enrich_pass_def fetch_organizers_to_enrich_def fetch_events_to_enrich_def
        split: option.splits)
  from run_batch_count[OF o] run_batch_count[OF e] p
  have "processed' = processed + int (length (take 8 so)) + int (length (take 8 se))" by simp
  moreover have "length (take 8 so) \<le> 8" "length (take 8 se) \<le> 8" by simp_all
  ultimately show ?thesis using nl by auto
qed

lemma enrich_pass_some:
  assumes "\<And>w. select_organizers E w \<noteq> None" "\<And>w. select_events E w \<noteq> None"
    "\<And>x w. process_single_organizer E x w \<noteq> None" "\<And>x w. process_single_event E x w \<noteq> None"
  shows "enrich_pass E processed w \<noteq> None"
proof -
  obtain so where so: "select_organizers E w = Some so"
    using assms(1)[of w] by auto
  obtain pw1 where pw1: "run_batch (process_single_organizer E) (take 8 so) processed w = Some pw1"
    using run_batch_some[of "process_single_organizer E" "take 8 so" processed w] assms(3) by auto
  obtain se where se: "select_events E (snd pw1) = Some se"
    using assms(2)[of "snd pw1"] by auto
  obtain pw2 where pw2: "run_batch (process_single_event E) (take 8 se) (fst pw1) (snd pw1) = Some pw2"
    using run_batch_some[of "process_single_event E" "take 8 se" "fst pw1" "snd pw1"] assms(4) by auto
  show ?thesis
    by (simp add: enrich_pass_def fetch_organizers_to_enrich_def fetch_events_to_enrich_def so pw1 se pw2)
qed

lemma enrich_loop_returns:
  assumes "\<And>w. select_organizers E w \<noteq> None" "\<And>w. select_events E w \<noteq> None"
    "\<And>x w. process_single_organizer E x w \<noteq> None" "\<And>x w. process_single_event E x w \<noteq> None"
  shows "enrich_loop E limit processed w \<noteq> None"
  using assms
proof (induction E limit processed w rule: enrich_loop.induct)
  case (1 E limit processed w)
  show ?case
  proof (cases "processed < limit")
    case False
    then show ?thesis by (simp add: enrich_loop.simps)
  next
    case True
    obtain nl p2 w2 where pass: "enrich_pass E processed w = Some (nl, p2, w2)"
      using enrich_pass_some[of E processed w] "1.prems" by (cases "enrich_pass E processed w") auto
    show ?thesis
    proof (cases nl)
      case True
      with pass \<open>processed < limit\<close> show ?thesis by (simp add: enrich_loop.simps)
    next
      case False
      have "enrich_loop E limit p2 w2 \<noteq> None"
        using "1.IH"[OF \<open>processed < limit\<close> pass refl refl False] "1.prems" by blast
      with pass False \<open>processed < limit\<close> show ?thesis by (simp add: enrich_loop.simps)
    qed
  qed
qed

lemma enrich_loop_bound:
  "enrich_loop E limit processed w = Some (n, w') \<Longrightarrow>
   processed \<le> n \<and> n \<le> max processed (limit + 15)"
proof (induction E limit processed w rule: enrich_loop.induct)
  case (1 E limit processed w)
  show ?case
  proof (cases "processed < limit")
    case False
    with "1.prems" show ?thesis by (simp add: enrich_loop.simps)
  next
    case True
    from "1.prems" True obtain nl p2 w2 where pass: "enrich_pass E processed w = Some (nl, p2, w2)"
      by (cases "enrich_pass E processed w") (auto simp: enrich_loop.simps)
    note b = enrich_pass_bounds[OF pass]
    show ?thesis
    proof (cases nl)
      case True
      with pass \<open>processed < limit\<close> "1.prems" have "n = p2" by (simp add: enrich_loop.simps)
      with b True show ?thesis by simp
    next
      case False
      with pass \<open>processed < limit\<close> "1.prems" have "enrich_loop E limit p2 w2 = Some (n, w')"
        by (simp add: enrich_loop.simps)
      from "1.IH"[OF \<open>processed < limit\<close> pass refl refl False this]
      have "p2 \<le> n \<and> n \<le> max p2 (limit + 15)" .
      with b \<open>processed < limit\<close> show ?thesis by auto
    qed
  qed
qed

text \<open>
  C8 (as amended). The loop of \<^verbatim>\<open>enrich_data\<close> always ends: it returns at once when the
  processed count has reached the limit, it returns after a pass that selected no
  organizer and no event, and every other pass raises the processed count; when no call
  raises it returns a result. The limit is tested between passes only, and a pass
  processes up to 8 organizers and 8 events, so the processed count stays within the
  limit plus 15 (and is 0 for a limit that is not positive).
\<close>

theorem enrich_data_stops_between_passes:
  "(limit \<le> processed \<longrightarrow> enrich_loop E limit processed w = Some (processed, w)) \<and>
   (processed < limit \<and> enrich_pass E processed w = Some (True, p2, w2) \<longrightarrow>
      enrich_loop E limit processed w = Some (p2, w2) \<and> p2 = processed) \<and>
   (processed < limit \<and> enrich_pass E processed w = Some (False, p2, w2) \<longrightarrow>
      enrich_loop E limit processed w = enrich_loop E limit p2 w2 \<and> processed < p2) \<and>
   ((\<forall>w. select_organizers E w \<noteq> None) \<and> (\<forall>w. select_events E w \<noteq> None) \<and>
    (\<forall>x w. process_single_organizer E x w \<noteq> None) \<and>
    (\<forall>x w. process_single_event E x w \<noteq> None) \<longrightarrow>
      enrich_data E limit w0 \<noteq> None) \<and>
   (enrich_data E limit w0 = Some (n, w') \<longrightarrow> 0 \<le> n \<and> n \<le> max 0 (limit + 15))"
proof -
  have a: "limit \<le> processed \<longrightarrow> enrich_loop E limit processed w = Some (processed, w)"
    by (simp add: enrich_loop.simps)
  have b: "processed < limit \<and> enrich_pass E processed w = Some (True, p2, w2) \<longrightarrow>
      enrich_loop E limit processed w = Some (p2, w2) \<and> p2 = processed"
    using enrich_pass_bounds[of E processed w True p2 w2] by (auto simp: enrich_loop.simps)
  have c: "processed < limit \<and> enrich_pass E processed w = Some (False, p2, w2) \<longrightarrow>
      enrich_loop E limit processed w = enrich_loop E limit p2 w2 \<and> processed < p2"
    using enrich_pass_progress[of E processed w p2 w2] by (auto simp: enrich_loop.simps)
  have d: "(\<forall>w. select_organizers E w \<noteq> None) \<and> (\<forall>w. select_events E w \<noteq> None) \<and>
    (\<forall>x w. process_single_organizer E x w \<noteq> None) \<and>
    (\<forall>x w. process_single_event E x w \<noteq> None) \<longrightarrow>
      enrich_data E limit w0 \<noteq> None"
    unfolding enrich_data_def using enrich_loop_returns[of E limit 0 w0] by blast
  have e: "enrich_data E limit w0 = Some (n, w') \<longrightarrow> 0 \<le> n \<and> n \<le> max 0 (limit + 15)"
    unfolding enrich_data_def using enrich_loop_bound[of E limit 0 w0 n w'] by blast
  from a b c d e show ?thesis by blast
qed

theorem enrich_data_stops_between_passes_witness:
  "(2 :: int) \<le> 3 \<and> enrich_loop countdown_env 2 3 0 = Some (3, 0) \<and>
   (0 :: int) < 2 \<and> enrich_pass countdown_env 0 0 = Some (True, 0, 0) \<and>
   enrich_loop countdown_env 2 0 0 = Some (0, 0) \<and>
   enrich_pass countdown_env 0 3 = Some (False, 3, 0) \<and>
   enrich_loop countdown_env 2 0 3 = enrich_loop countdown_env 2 3 0 \<and>
   (\<forall>w. select_organizers countdown_env w \<noteq> None) \<and>
   (\<forall>w. select_events countdown_env w \<noteq> None) \<and>
   (\<forall>x w. process_single_organizer countdown_env x w \<noteq> None) \<and>
   (\<forall>x w. process_single_event countdown_env x w \<noteq> None) \<and>
   enrich_data countdown_env 2 3 \<noteq> None \<and>
   enrich_data countdown_env 2 3 = Some (3, 0) \<and> (3 :: int) \<le> max 0 (2 + 15)"
proof -
  have p1: "enrich_pass countdown_env 0 0 = Some (True, 0, 0)"
    by (simp add: enrich_pass_def countdown_env_def fetch_organizers_to_enrich_def
        fetch_events_to_enrich_def)
  have p2: "enrich_pass countdown_env 0 3 = Some (False, 3, 0)"
    by (simp add: enrich_pass_def countdown_env_def fetch_organizers_to_enrich_def
        fetch_events_to_enrich_def upt_rec)
  have nr: "(\<forall>w. select_organizers countdown_env w \<noteq> None) \<and>
   (\<forall>w. select_events countdown_env w \<noteq> None) \<and>
   (\<forall>x w. process_single_organizer countdown_env x w \<noteq> None) \<and>
   (\<forall>x w. process_single_event countdown_env x w \<noteq> None)"
    by (simp add: countdown_env_def)
  note t1 = enrich_data_stops_between_passes[where E = countdown_env and limit = 2 and processed = 3
      and w = 0 and ?w0.0 = 3 and n = 3 and w' = 0]
  note t2 = enrich_data_stops_between_passes[where E = countdown_env and limit = 2 and processed = 0
      and w = 0 and ?p2.0 = 0 and ?w2.0 = 0]
  note t3 = enrich_data_stops_between_passes[where E = countdown_env and limit = 2 and processed = 0
      and w = 3 and ?p2.0 = 3 and ?w2.0 = 0]
  from t1 have l1: "enrich_loop countdown_env 2 3 0 = Some (3, 0)" by simp
  from t2 p1 have l2: "enrich_loop countdown_env 2 0 0 = Some (0, 0)" by simp
  from t3 p2 have l3: "enrich_loop countdown_env 2 0 3 = enrich_loop countdown_env 2 3 0" by simp
  from l3 l1 have d: "enrich_data countdown_env 2 3 = Some (3, 0)" by (simp add: enrich_data_def)
  from t1 nr have nn: "enrich_data countdown_env 2 3 \<noteq> None" by blast
  from p1 p2 nr l1 l2 l3 d nn show ?thesis by simp
qed

text \<open>
  The claim as it was stated fails: with a limit of 2 and three incomplete organizers the
  first pass processes all three.
\<close>

theorem enrich_data_overshoots_budget_counterexample:
  "enrich_data countdown_env 2 3 = Some (3, 0) \<and> (2 :: int) < 3"
  by (simp add: enrich_data_def enrich_loop.simps enrich_pass_def countdown_env_def
      fetch_organizers_to_enrich_def fetch_events_to_enrich_def upt_rec)

section \<open>Properties of the response decoder\<close>

text \<open>
  The decoder returns the empty mapping or a value that \<^verbatim>\<open>json.loads\<close> returned; it has
  no test that this value is a mapping.
\<close>

lemma safe_json_object_or_loaded:
  "safe_json loads text = JObject [] \<or> (\<exists>s. loads s = Some (safe_json loads text))"
proof (cases "text = []")
  case True
  then show ?thesis by (simp add: safe_json_def)
next
  case False
  define cleaned0 where "cleaned0 = strip (strip_fences True (strip text))"
  define cleaned where "cleaned = (if take 1 (strip cleaned0) \<noteq> ''{'' then
                         (case brace_span cleaned0 of Some m \<Rightarrow> m | None \<Rightarrow> cleaned0)
                       else cleaned0)"
  have r: "safe_json loads text = (case loads cleaned of
             Some v \<Rightarrow> v
           | None \<Rightarrow> (case loads (replace_quotes cleaned) of Some v \<Rightarrow> v | None \<Rightarrow> JObject []))"
    using False unfolding safe_json_def cleaned_def cleaned0_def Let_def by simp
  show ?thesis
  proof (cases "loads cleaned")
    case (Some v)
    with r show ?thesis by auto
  next
    case None
    with r show ?thesis by (cases "loads (replace_quotes cleaned)") auto
  qed
qed

lemma safe_json_array_text:
  "safe_json loads ''[1, 2]'' = (case loads ''[1, 2]'' of Some v \<Rightarrow> v | None \<Rightarrow> JObject [])"
proof -
  have s: "strip ''[1, 2]'' = ''[1, 2]''" by code_simp
  have f: "strip_fences True ''[1, 2]'' = ''[1, 2]''" by code_simp
  have b: "brace_span ''[1, 2]'' = None" by code_simp
  have q: "replace_quotes ''[1, 2]'' = ''[1, 2]''" by code_simp
  have t: "(take 1 ''[1, 2]'' \<noteq> ''{'') = True" by code_simp
  have n: "(''[1, 2]'' = []) = False" by simp
  have "safe_json loads ''[1, 2]'' =
          (case loads ''[1, 2]'' of
             Some v \<Rightarrow> v
           | None \<Rightarrow> (case loads ''[1, 2]'' of Some v \<Rightarrow> v | None \<Rightarrow> JObject []))"
    unfolding safe_json_def Let_def s f b q
    by (simp only: t n q if_True if_False option.case)
  then show ?thesis by (cases "loads ''[1, 2]''") simp_all
qed

lemma safe_json_fenced_object:
  "safe_json sample_loads
     (FENCE @ ''json'' @ [NEWLINE] @
      ''{'' @ [CHR 0x22] @ ''event_name'' @ [CHR 0x22] @ '': '' @ [CHR 0x22] @ ''Gala'' @ [CHR 0x22] @ ''}'' @
      [NEWLINE] @ FENCE) =
   JObject [(''event_name'', PStr ''Gala'')]"
  by code_simp

text \<open>
  C4. The claim that the decoder returns a mapping for every input string does not hold
  of the code: on the completion \<^verbatim>\<open>[1, 2]\<close> no fence is stripped and no brace span is
  found, the text goes to \<^verbatim>\<open>json.loads\<close> as it is, and what \<^verbatim>\<open>json.loads\<close> returns, a
  list, is returned.
\<close>

theorem safe_json_returns_array:
  "safe_json loads ''[1, 2]'' = (case loads ''[1, 2]'' of Some v \<Rightarrow> v | None \<Rightarrow> JObject []) \<and>
   safe_json sample_loads ''[1, 2]'' = JArray [PInt 1, PInt 2]"
proof -
  have "sample_loads ''[1, 2]'' = Some (JArray [PInt 1, PInt 2])"
    by (simp add: sample_loads_def)
  with safe_json_array_text[of sample_loads] safe_json_array_text[of loads]
  show ?thesis by simp
qed

end
